theory Spec2Isabelle
  imports Complex_Main "HOL-Library.Word" "HOL-Library.Sublist"
begin

section \<open>Histogram tree updater (plugin/sycl/tree/hist_updater.cc)\<close>

text \<open>
  A shallow embedding of \<^verbatim>\<open>HistUpdater<GradientSumT>\<close>: row-set initialisation
  (\<^verbatim>\<open>InitSampling\<close>, \<^verbatim>\<open>InitData\<close>), node statistics (\<^verbatim>\<open>InitNewNode\<close>) and split
  evaluation (\<^verbatim>\<open>EvaluateSplits\<close>, \<^verbatim>\<open>EnumerateSplit\<close>).

  Numbers. A value of \<^verbatim>\<open>bst_float\<close> or \<^verbatim>\<open>GradientSumT\<close> is the real number it denotes
  (NaN and the infinities are left out). Comparisons are those of the reals. Every
  addition and subtraction the source performs in \<^verbatim>\<open>GradientSumT\<close> is the exact one
  followed by the rounding of that format; the rounding is an argument, so that a
  statement with no assumption on it holds for \<^verbatim>\<open>float\<close> and for \<^verbatim>\<open>double\<close>. Sizes, row
  ids, bin ids, feature ids and node ids are natural numbers; where the source
  subtracts unsigned machine integers the wrap-around is written out, and the casts of
  the cut pointers to \<^verbatim>\<open>int32_t\<close> are written out. The random engine's seed is a 64-bit
  word.

  Parallelism. A \<^verbatim>\<open>parallel_for\<close> whose work-items communicate only through atomic
  counters is a fold of the work-item body over a schedule: the order in which the
  atomic operations take effect. The schedule is an argument, so that statements can
  be made for every order. The lanes of a sub-group run in lock step; group
  collectives are functions of the values the lanes contribute, and the order in which
  writes of several lanes to one location take effect is an argument as well.
\<close>

subsection \<open>Floating-point arithmetic\<close>

text \<open>\<open>rnd\<close> is the rounding of \<^verbatim>\<open>GradientSumT\<close>: the sum of \<open>x\<close> and \<open>y\<close> in that
  format is \<open>rnd (x + y)\<close>, their difference \<open>rnd (x - y)\<close>. \<open>to_float\<close> takes the
  difference computed for a loss change to \<^verbatim>\<open>bst_float\<close>.\<close>

record Arith =
  rnd :: "real \<Rightarrow> real"
  to_float :: "real \<Rightarrow> real"

text \<open>The rounding of IEEE 754 binary formats, to nearest with ties to even, for a
  significand of \<open>p\<close> bits; the exponent range is not limited. \<open>floor_log2 n\<close> is the
  position of the leading bit of \<open>n\<close>, \<open>ilog2 x\<close> the exponent \<open>e\<close> with
  \<open>2^e \<le> x < 2^(e+1)\<close> of a positive \<open>x\<close>. \<^verbatim>\<open>float\<close> is binary32, with 24 bits. It is
  the arithmetic of the examples.\<close>

fun floor_log2 :: "nat \<Rightarrow> nat" where
  "floor_log2 n = (if n < 2 then 0 else Suc (floor_log2 (n div 2)))"

declare floor_log2.simps [simp del]

definition ilog2 :: "real \<Rightarrow> int" where
  "ilog2 x = (if 1 \<le> x then int (floor_log2 (nat \<lfloor>x\<rfloor>))
              else - int (floor_log2 (nat (\<lceil>1 / x\<rceil> - 1))) - 1)"

definition round_half_even :: "real \<Rightarrow> int" where
  "round_half_even y =
     (let f = \<lfloor>y\<rfloor> in
      if y - of_int f < 1 / 2 then f
      else if 1 / 2 < y - of_int f then f + 1
      else if even f then f else f + 1)"

definition round_to :: "nat \<Rightarrow> real \<Rightarrow> real" where
  "round_to p x =
     (if x = 0 then 0 else
        (let u = ilog2 \<bar>x\<bar> - int p + 1;
             ulp = (if 0 \<le> u then 2 ^ nat u else 1 / 2 ^ nat (- u))
         in sgn x * of_int (round_half_even (\<bar>x\<bar> / ulp)) * ulp))"

definition binary32 :: "real \<Rightarrow> real" where
  "binary32 x = round_to 24 x"

definition float_arith :: Arith where
  "float_arith = \<lparr>rnd = binary32, to_float = binary32\<rparr>"

subsection \<open>Gradient statistics\<close>

text \<open>\<^verbatim>\<open>GradStats<GradientSumT>\<close>: a pair of sums with \<^verbatim>\<open>Add\<close>, \<^verbatim>\<open>+=\<close> and \<^verbatim>\<open>-\<close>, each
  rounding in \<^verbatim>\<open>GradientSumT\<close>. A \<^verbatim>\<open>GradientPair\<close> (one row's gradient and Hessian) has the
  same shape.\<close>

record GradStats =
  sum_grad :: real
  sum_hess :: real

definition GetGrad :: "GradStats \<Rightarrow> real" where
  "GetGrad s = sum_grad s"

definition GetHess :: "GradStats \<Rightarrow> real" where
  "GetHess s = sum_hess s"

definition GradStats_zero :: GradStats where
  "GradStats_zero = \<lparr>sum_grad = 0, sum_hess = 0\<rparr>"

definition Add :: "Arith \<Rightarrow> GradStats \<Rightarrow> real \<Rightarrow> real \<Rightarrow> GradStats" where
  "Add ar s g h = \<lparr>sum_grad = rnd ar (sum_grad s + g), sum_hess = rnd ar (sum_hess s + h)\<rparr>"

definition GradStats_plus :: "Arith \<Rightarrow> GradStats \<Rightarrow> GradStats \<Rightarrow> GradStats" where
  "GradStats_plus ar a b = Add ar a (GetGrad b) (GetHess b)"

definition GradStats_minus :: "Arith \<Rightarrow> GradStats \<Rightarrow> GradStats \<Rightarrow> GradStats" where
  "GradStats_minus ar a b =
     \<lparr>sum_grad = rnd ar (sum_grad a - sum_grad b), sum_hess = rnd ar (sum_hess a - sum_hess b)\<rparr>"

subsection \<open>Best split entry\<close>

text \<open>
  Modelled from the spec: the type \<^verbatim>\<open>SplitEntry<GradientSumT>\<close> and its methods
  \<^verbatim>\<open>SplitIndex\<close>, \<^verbatim>\<open>NeedReplace\<close> and \<^verbatim>\<open>Update\<close> are declared in a header that is not
  part of the sources at hand. The spec gives the fields
  (loss gain, feature id, split threshold, default direction, left sum, right sum) and
  the comparison: a strictly greater loss gain wins; on an exact tie the smaller
  feature id wins. A default-constructed entry has loss gain 0 and feature id 0.
\<close>

record SplitEntry =
  loss_chg :: real
  sindex :: nat
  split_value :: real
  default_left :: bool
  left_sum :: GradStats
  right_sum :: GradStats

definition SplitEntry_default :: SplitEntry where
  "SplitEntry_default =
     \<lparr>loss_chg = 0, sindex = 0, split_value = 0, default_left = False,
      left_sum = GradStats_zero, right_sum = GradStats_zero\<rparr>"

definition SplitIndex :: "SplitEntry \<Rightarrow> nat" where
  "SplitIndex e = sindex e"

definition NeedReplace :: "SplitEntry \<Rightarrow> real \<Rightarrow> nat \<Rightarrow> bool" where
  "NeedReplace this new_loss_chg split_index =
     (new_loss_chg > loss_chg this \<or>
      (new_loss_chg = loss_chg this \<and> split_index < SplitIndex this))"

text \<open>\<^verbatim>\<open>Update(const SplitEntry& e)\<close>\<close>

definition Update :: "SplitEntry \<Rightarrow> SplitEntry \<Rightarrow> SplitEntry" where
  "Update this e = (if NeedReplace this (loss_chg e) (SplitIndex e) then e else this)"

text \<open>\<^verbatim>\<open>Update(new_loss_chg, split_index, new_split_value, default_left, left_sum, right_sum)\<close>\<close>

definition Update_args ::
  "SplitEntry \<Rightarrow> real \<Rightarrow> nat \<Rightarrow> real \<Rightarrow> bool \<Rightarrow> GradStats \<Rightarrow> GradStats \<Rightarrow> SplitEntry" where
  "Update_args this new_loss_chg split_index new_split_value dl l r =
     (if NeedReplace this new_loss_chg split_index
      then \<lparr>loss_chg = new_loss_chg, sindex = split_index, split_value = new_split_value,
            default_left = dl, left_sum = l, right_sum = r\<rparr>
      else this)"

subsection \<open>Node statistics, evaluator, tree, parameters\<close>

text \<open>
  Modelled from the spec: \<^verbatim>\<open>NodeEntry<GradientSumT>\<close> is declared in the missing header;
  the spec lists the aggregate statistics, the weight, the root gain and the best
  split. \<^verbatim>\<open>NodeEntry(param)\<close> is the entry of a node that has not been evaluated.
\<close>

record NodeEntry =
  stats :: GradStats
  root_gain :: real
  weight :: real
  best :: SplitEntry

definition NodeEntry_init :: NodeEntry where
  "NodeEntry_init =
     \<lparr>stats = GradStats_zero, root_gain = 0, weight = 0, best = SplitEntry_default\<rparr>"

text \<open>The split evaluator is an external collaborator: three pure functions.\<close>

record SplitEvaluator =
  CalcSplitGain :: "nat \<Rightarrow> nat \<Rightarrow> GradStats \<Rightarrow> GradStats \<Rightarrow> real"
  CalcWeight :: "nat \<Rightarrow> GradStats \<Rightarrow> real"
  CalcGain :: "nat \<Rightarrow> GradStats \<Rightarrow> real"

text \<open>The queries of \<^verbatim>\<open>RegTree\<close> the updater makes (the tree is external).\<close>

record RegTree =
  NumNodes :: nat
  IsRoot :: "nat \<Rightarrow> bool"
  Parent :: "nat \<Rightarrow> nat"
  IsLeftChild :: "nat \<Rightarrow> bool"
  GetDepth :: "nat \<Rightarrow> nat"

text \<open>The fields of \<^verbatim>\<open>TrainParam\<close> that the updater reads.\<close>

datatype GrowPolicy = kDepthWise | kLossGuide

datatype SamplingMethod = kUniform | kGradientBased

record TrainParam =
  max_depth :: int
  max_leaves :: int
  grow_policy :: GrowPolicy
  subsample :: real
  sampling_method :: SamplingMethod
  min_child_weight :: real

subsection \<open>Kernels and schedules\<close>

text \<open>A schedule of a kernel over the range \<open>n\<close> runs every work-item once; a
  \<^verbatim>\<open>parallel_for\<close> is the fold of the body of the work-items over the schedule.\<close>

definition is_schedule :: "nat \<Rightarrow> nat list \<Rightarrow> bool" where
  "is_schedule n sched = (sort sched = [0..<n])"

definition parallel_for :: "nat list \<Rightarrow> (nat \<Rightarrow> 's \<Rightarrow> 's) \<Rightarrow> 's \<Rightarrow> 's" where
  "parallel_for sched body st = fold body sched st"

subsection \<open>EnumerateSplit\<close>

text \<open>The strided loop \<^verbatim>\<open>for (i = first; i < iend; i += step)\<close> with the loop state
  passed along. A sub-group has at least one lane, so the step is positive wherever
  the source runs the loop; with step 0 the model returns the state.\<close>

function for_stride :: "nat \<Rightarrow> nat \<Rightarrow> nat \<Rightarrow> (nat \<Rightarrow> 's \<Rightarrow> 's) \<Rightarrow> 's \<Rightarrow> 's" where
  "for_stride i iend step body st =
     (if 0 < step \<and> i < iend then for_stride (i + step) iend step body (body i st) else st)"
  by pat_completeness auto
termination
  by (relation "measure (\<lambda>(i, iend, step, body, st). iend - i)") auto

declare for_stride.simps [simp del]

text \<open>\<^verbatim>\<open>static_cast<int32_t>\<close> of the cut pointer that ends the loop. A value below
  \<open>2^31\<close> is kept. A value of \<open>2^31\<close> or more becomes negative, and a negative end
  stops the loop before its first iteration, as the end 0 does. (A first cut pointer of
  \<open>2^31\<close> or more would start the loop at a negative bin, before the first entry of
  the histogram; the statements about the loop exclude it, and they bound the last cut
  pointer so that the loop counter stays below \<open>2^31\<close>.)\<close>

definition int32_end :: "nat \<Rightarrow> nat" where
  "int32_end x = (if x < 2 ^ 31 then x else 0)"

text \<open>\<^verbatim>\<open>inclusive_scan_over_group(sg, x, plus)\<close> as seen by lane \<open>local_id\<close>: the sum
  of the values contributed by lanes \<open>0..local_id\<close>; \<open>x k\<close> is lane \<open>k\<close>'s value.
  The partial sums are values of \<^verbatim>\<open>GradientSumT\<close>; they are taken lane by lane, from
  lane 0 up. Inside the loop the lanes that still run are an initial segment of the
  group, and a running lane gets the sum over the lanes up to itself.\<close>

definition inclusive_scan_over_group :: "Arith \<Rightarrow> (nat \<Rightarrow> real) \<Rightarrow> nat \<Rightarrow> real" where
  "inclusive_scan_over_group ar x local_id =
     fold (\<lambda>k acc. rnd ar (acc + x k)) [1..<Suc local_id] (x 0)"

text \<open>\<^verbatim>\<open>reduce_over_group(sg, x, op)\<close> over the values of all lanes, lane 0 first.\<close>

fun reduce_over_group :: "('a \<Rightarrow> 'a \<Rightarrow> 'a) \<Rightarrow> 'a \<Rightarrow> 'a list \<Rightarrow> 'a" where
  "reduce_over_group f x [] = x"
| "reduce_over_group f x (y # ys) = reduce_over_group f (f x y) ys"

text \<open>The two statements of the loop body that change \<^verbatim>\<open>sum\<close>, for the lane
  \<open>local_id\<close> at bin \<open>i\<close>. In the first iteration lane \<open>k\<close> is at bin
  \<open>ibegin + k\<close>, and all lanes advance by the group size, so lane \<open>k\<close> contributes
  the entry of bin \<open>i - local_id + k\<close> to the scan. \<open>scan_add\<close> is
  \<^verbatim>\<open>sum.Add(inclusive_scan_over_group(...), inclusive_scan_over_group(...))\<close>;
  \<open>catch_up\<close> is the block \<^verbatim>\<open>if (!last_iter) { ... }\<close>, which adds the entries of the
  bins that the other lanes have in this round.\<close>

definition scan_add :: "Arith \<Rightarrow> nat \<Rightarrow> GradStats list \<Rightarrow> nat \<Rightarrow> GradStats \<Rightarrow> GradStats" where
  "scan_add ar local_id hist_data i sum0 =
     Add ar sum0
       (inclusive_scan_over_group ar (\<lambda>k. GetGrad (hist_data ! (i - local_id + k))) local_id)
       (inclusive_scan_over_group ar (\<lambda>k. GetHess (hist_data ! (i - local_id + k))) local_id)"

definition catch_up ::
  "Arith \<Rightarrow> nat \<Rightarrow> nat \<Rightarrow> GradStats list \<Rightarrow> nat \<Rightarrow> nat \<Rightarrow> GradStats \<Rightarrow> GradStats" where
  "catch_up ar sub_group_size local_id hist_data iend i sum1 =
     (let last_iter = (i + sub_group_size \<ge> iend) in
      if \<not> last_iter then
        (let end0 = i - local_id + sub_group_size;
             end1 = (if end0 > iend then iend else end0)
         in fold (\<lambda>j s. Add ar s (GetGrad (hist_data ! j)) (GetHess (hist_data ! j)))
              [i + 1..<end1] sum1)
      else sum1)"

text \<open>The body of the loop of \<^verbatim>\<open>EnumerateSplit\<close> for the lane \<open>local_id\<close> at bin
  \<open>i\<close>; the loop state is \<open>(sum, best)\<close>.\<close>

definition EnumerateSplit_body ::
  "Arith \<Rightarrow> nat \<Rightarrow> nat \<Rightarrow> real list \<Rightarrow> GradStats list \<Rightarrow> NodeEntry \<Rightarrow> nat \<Rightarrow> nat \<Rightarrow>
   SplitEvaluator \<Rightarrow> real \<Rightarrow> nat \<Rightarrow> nat \<Rightarrow> GradStats \<times> SplitEntry \<Rightarrow> GradStats \<times> SplitEntry" where
  "EnumerateSplit_body ar sub_group_size local_id cut_val hist_data snode fid nodeID
       evaluator mcw iend i st =
     (let sum0 = fst st; best0 = snd st;
          sum1 = scan_add ar local_id hist_data i sum0;
          best1 =
            (if GetHess sum1 \<ge> mcw then
               (let c = GradStats_minus ar (stats snode) sum1 in
                if GetHess c \<ge> mcw then
                  (let loss_chg = to_float ar (CalcSplitGain evaluator nodeID fid sum1 c - root_gain snode);
                       split_pt = cut_val ! i
                   in Update_args best0 loss_chg fid split_pt False sum1 c)
                else best0)
             else best0);
          sum2 = catch_up ar sub_group_size local_id hist_data iend i sum1
      in (sum2, best1))"

text \<open>What lane \<open>local_id\<close> holds in \<^verbatim>\<open>best\<close> after its loop.\<close>

definition lane_best ::
  "Arith \<Rightarrow> nat \<Rightarrow> nat \<Rightarrow> nat list \<Rightarrow> real list \<Rightarrow> GradStats list \<Rightarrow> NodeEntry \<Rightarrow> nat \<Rightarrow> nat \<Rightarrow>
   SplitEvaluator \<Rightarrow> real \<Rightarrow> SplitEntry" where
  "lane_best ar sub_group_size local_id cut_ptr cut_val hist_data snode fid nodeID evaluator mcw =
     (let ibegin = cut_ptr ! fid;
          iend = int32_end (cut_ptr ! (fid + 1))
      in snd (for_stride (ibegin + local_id) iend sub_group_size
                (EnumerateSplit_body ar sub_group_size local_id cut_val hist_data snode fid nodeID
                   evaluator mcw iend)
                (\<lparr>sum_grad = 0, sum_hess = 0\<rparr>, SplitEntry_default)))"

text \<open>\<^verbatim>\<open>EnumerateSplit\<close> for one sub-group. After the loops the group takes the maximal
  \<^verbatim>\<open>loss_chg\<close> and, among the lanes that hold it, the minimal split index; every lane
  that holds both calls \<^verbatim>\<open>p_best->Update(best)\<close> on the one entry \<open>p_best\<close> points to.
  The source does not order these calls: \<open>lane_order\<close>, a schedule of the lanes, is
  the order in which they take effect. The result is the entry \<open>p_best\<close> points to
  afterwards.\<close>

definition EnumerateSplit ::
  "Arith \<Rightarrow> nat \<Rightarrow> nat list \<Rightarrow> nat list \<Rightarrow> real list \<Rightarrow> GradStats list \<Rightarrow> NodeEntry \<Rightarrow> SplitEntry \<Rightarrow>
   nat \<Rightarrow> nat \<Rightarrow> SplitEvaluator \<Rightarrow> real \<Rightarrow> SplitEntry" where
  "EnumerateSplit ar sub_group_size lane_order cut_ptr cut_val hist_data snode p_best fid nodeID
       evaluator mcw =
     (case map (\<lambda>local_id. lane_best ar sub_group_size local_id cut_ptr cut_val hist_data snode
                  fid nodeID evaluator mcw) [0..<sub_group_size] of
        [] \<Rightarrow> p_best
      | b # bs \<Rightarrow>
         (let total_loss_chg = reduce_over_group max (loss_chg b) (map loss_chg bs);
              pick = (\<lambda>e. if loss_chg e = total_loss_chg then SplitIndex e else 2 ^ 31 - 1);
              total_split_index = reduce_over_group min (pick b) (map pick bs)
          in fold (\<lambda>e p. if loss_chg e = total_loss_chg \<and> SplitIndex e = total_split_index
                          then Update p e else p)
               (map (\<lambda>local_id. lane_best ar sub_group_size local_id cut_ptr cut_val hist_data snode
                       fid nodeID evaluator mcw) lane_order)
               p_best))"

subsection \<open>EvaluateSplits\<close>


text \<open>The members of \<^verbatim>\<open>HistUpdater\<close> that the modelled methods read or write, named
  without the trailing underscore of the source (\<^verbatim>\<open>param_\<close>, \<^verbatim>\<open>seed_\<close>, \<^verbatim>\<open>data_layout_\<close>,
  \<^verbatim>\<open>fid_least_bins_\<close>, \<^verbatim>\<open>snode_host_\<close>); \<open>row_indices\<close> is \<^verbatim>\<open>row_set_collection_.Data()\<close>.\<close>

datatype DataLayout = kDenseDataZeroBased | kDenseDataOneBased | kSparseData

record HistUpdater =
  param :: TrainParam
  seed :: "64 word"
  row_indices :: "nat list"
  data_layout :: DataLayout
  fid_least_bins :: nat
  snode_host :: "NodeEntry list"





subsection \<open>InitSampling and InitData\<close>

datatype error =
    MaxDepthAndMaxLeavesZero
  | DepthWiseMaxDepthZero
  | OnlyUniformSampling
  | NoPositiveBins
  | CollectiveFailed

text \<open>
  Modelled from the spec: \<^verbatim>\<open>USMVector::Resize\<close> is not in the sources; the spec has the
  output "resized to the exact compacted count". The vector keeps its first cells and
  new cells hold \<open>v\<close>. The source's first resize of the row indices leaves new cells
  uninitialised; they are 0 here, and every cell is written before it is read.
\<close>

definition Resize :: "'a list \<Rightarrow> nat \<Rightarrow> 'a \<Rightarrow> 'a list" where
  "Resize xs size_new v = take size_new xs @ replicate (size_new - length xs) v"

text \<open>The kernel of \<^verbatim>\<open>InitSampling\<close>: work-item \<open>i\<close> draws its coin and, when the row
  is kept, takes the next free cell with an atomic increment. \<open>coin_flip s i r\<close>
  is the draw of \<^verbatim>\<open>bernoulli_distribution(r)\<close> on \<^verbatim>\<open>minstd_rand(s, i)\<close>.\<close>

definition InitSampling ::
  "nat list \<Rightarrow> (64 word \<Rightarrow> nat \<Rightarrow> real \<Rightarrow> bool) \<Rightarrow> GradStats list \<Rightarrow> HistUpdater \<Rightarrow> HistUpdater" where
  "InitSampling sched coin_flip gpair st =
     (let num_rows = length (row_indices st);
          seed0 = seed st;
          (num_samples, row_idx) =
             parallel_for sched
               (\<lambda>i (num_samples, row_idx).
                   if GetHess (gpair ! i) \<ge> 0 \<and> coin_flip seed0 i (subsample (param st))
                   then (num_samples + 1, row_idx[num_samples := i])
                   else (num_samples, row_idx))
               (0, row_indices st)
      in st\<lparr>seed := seed0 + of_nat num_rows, row_indices := Resize row_idx num_samples 0\<rparr>)"

text \<open>The two kernels of the branch for \<^verbatim>\<open>subsample >= 1\<close>: the first writes the
  identity and raises the flag \<^verbatim>\<open>has_neg_hess\<close>; the second, run only when the flag is
  set, compacts the rows with a nonnegative Hessian.\<close>

definition InitData_fill :: "nat list \<Rightarrow> GradStats list \<Rightarrow> nat list \<Rightarrow> int \<times> nat list" where
  "InitData_fill sched gpair p_row_indices =
     parallel_for sched
       (\<lambda>idx (has_neg_hess, p).
           (if GetHess (gpair ! idx) < 0 then max has_neg_hess 1 else has_neg_hess,
            p[idx := idx]))
       (0, p_row_indices)"

definition InitData_compact :: "nat list \<Rightarrow> GradStats list \<Rightarrow> nat list \<Rightarrow> nat \<times> nat list" where
  "InitData_compact sched gpair p_row_indices =
     parallel_for sched
       (\<lambda>idx (max_idx, p).
           if GetHess (gpair ! idx) \<ge> 0 then (max_idx + 1, p[max_idx := idx]) else (max_idx, p))
       (0, p_row_indices)"

text \<open>The fields of \<^verbatim>\<open>MetaInfo\<close> that \<^verbatim>\<open>InitData\<close> reads.\<close>

record MetaInfo =
  num_row :: nat
  num_col :: nat
  num_nonzero :: nat

text \<open>The block "initialize the row set" of \<^verbatim>\<open>InitData\<close>. The schedule is used for
  whichever kernels run; the result of the first kernel of the second branch does not
  depend on it.\<close>

definition InitData_row_set ::
  "nat list \<Rightarrow> (64 word \<Rightarrow> nat \<Rightarrow> real \<Rightarrow> bool) \<Rightarrow> GradStats list \<Rightarrow> MetaInfo \<Rightarrow> HistUpdater \<Rightarrow>
   error + HistUpdater" where
  "InitData_row_set sched coin_flip gpair info st =
     (let p_row_indices = Resize (row_indices st) (num_row info) 0 in
      if subsample (param st) < 1 then
        (if sampling_method (param st) \<noteq> kUniform then Inl OnlyUniformSampling
         else Inr (InitSampling sched coin_flip gpair (st\<lparr>row_indices := p_row_indices\<rparr>)))
      else
        (let (has_neg_hess, p1) = InitData_fill sched gpair p_row_indices in
         if has_neg_hess \<noteq> 0 then
           (let (max_idx, p2) = InitData_compact sched gpair p1
            in Inr (st\<lparr>row_indices := Resize p2 max_idx 0\<rparr>))
         else Inr (st\<lparr>row_indices := p1\<rparr>)))"

text \<open>Unsigned machine arithmetic of the layout test and of the bin counts.\<close>

definition u32_sub :: "nat \<Rightarrow> nat \<Rightarrow> nat" where
  "u32_sub a b = (2 ^ 32 + a - b) mod 2 ^ 32"

definition size_t_mul :: "nat \<Rightarrow> nat \<Rightarrow> nat" where
  "size_t_mul a b = (a * b) mod 2 ^ 64"

definition size_t_sub :: "nat \<Rightarrow> nat \<Rightarrow> nat" where
  "size_t_sub a b = (2 ^ 64 + a - b) mod 2 ^ 64"

definition determine_layout :: "nat list \<Rightarrow> MetaInfo \<Rightarrow> DataLayout" where
  "determine_layout row_ptr info =
     (let nrow = num_row info; ncol = num_col info; nnz = num_nonzero info;
          nbins_f0 = u32_sub (row_ptr ! 1) (row_ptr ! 0)
      in if size_t_mul nrow ncol = nnz then kDenseDataZeroBased
         else if nbins_f0 = 0 \<and> size_t_mul nrow (size_t_sub ncol 1) = nnz then kDenseDataOneBased
         else kSparseData)"

text \<open>The loop that chooses the column with the least positive number of bins; the
  state is \<open>(min_nbins_per_feature, fid_least_bins)\<close>.\<close>

definition least_bins :: "nat list \<Rightarrow> nat \<Rightarrow> nat \<times> nat" where
  "least_bins row_ptr fid0 =
     (let nfeature = length row_ptr - 1 in
      fold (\<lambda>i (min_nbins_per_feature, fid).
              (let nbins = u32_sub (row_ptr ! (i + 1)) (row_ptr ! i) in
               if nbins > 0 then
                 (if min_nbins_per_feature = 0 \<or> min_nbins_per_feature > nbins
                  then (nbins, i) else (min_nbins_per_feature, fid))
               else (min_nbins_per_feature, fid)))
        [0..<nfeature] (0, fid0))"

definition InitData ::
  "nat list \<Rightarrow> (64 word \<Rightarrow> nat \<Rightarrow> real \<Rightarrow> bool) \<Rightarrow> nat list \<Rightarrow> GradStats list \<Rightarrow> MetaInfo \<Rightarrow>
   HistUpdater \<Rightarrow> error + HistUpdater" where
  "InitData sched coin_flip row_ptr gpair info st =
     (if \<not> (max_depth (param st) > 0 \<or> max_leaves (param st) > 0)
      then Inl MaxDepthAndMaxLeavesZero
      else if grow_policy (param st) = kDepthWise \<and> \<not> max_depth (param st) > 0
      then Inl DepthWiseMaxDepthZero
      else
        (case InitData_row_set sched coin_flip gpair info st of
           Inl e \<Rightarrow> Inl e
         | Inr st1 \<Rightarrow>
            (let st2 = st1\<lparr>data_layout := determine_layout row_ptr info\<rparr>;
                 fill = (\<lambda>s. s\<lparr>snode_host := map (\<lambda>_. NodeEntry_init) (snode_host s)\<rparr>)
             in if data_layout st2 = kDenseDataZeroBased \<or> data_layout st2 = kDenseDataOneBased
                then
                  (let (min_nbins_per_feature, fid) = least_bins row_ptr (fid_least_bins st2) in
                   if \<not> min_nbins_per_feature > 0 then Inl NoPositiveBins
                   else Inr (fill (st2\<lparr>fid_least_bins := fid\<rparr>)))
                else Inr (fill st2))))"


subsection \<open>InitNewNode\<close>

text \<open>The local aggregate of the root. Dense layouts: the sum of the node's histogram
  over the bins of the column \<^verbatim>\<open>fid_least_bins_\<close>, added up on the host in the order of the
  bins. Sparse layout: the reduction of the gradient pairs over the node's rows (a sum
  in \<^verbatim>\<open>GradientSumT\<close>; the source leaves the order of a reduction to the device, it is
  taken here in the order of the row set). \<open>hist\<close> maps a node id to its histogram
  (\<^verbatim>\<open>hist_[nid]\<close>), \<open>row_set_collection\<close> to its rows (\<^verbatim>\<open>row_set_collection_[nid]\<close>).\<close>

definition root_grad_stat ::
  "Arith \<Rightarrow> nat list \<Rightarrow> (nat \<Rightarrow> GradStats list) \<Rightarrow> (nat \<Rightarrow> nat list) \<Rightarrow> GradStats list \<Rightarrow> HistUpdater \<Rightarrow>
   nat \<Rightarrow> GradStats" where
  "root_grad_stat ar row_ptr hist row_set_collection gpair st nid =
     (if data_layout st = kDenseDataZeroBased \<or> data_layout st = kDenseDataOneBased then
        (let ibegin = row_ptr ! fid_least_bins st;
             iend = row_ptr ! (fid_least_bins st + 1);
             ets = take (u32_sub iend ibegin) (drop ibegin (hist nid))
         in fold (\<lambda>et grad_stat. GradStats_plus ar grad_stat et) ets GradStats_zero)
      else
        (let row_idxs = row_set_collection nid;
             size = length row_idxs
         in fold (\<lambda>i sum. GradStats_plus ar sum (gpair ! (row_idxs ! i))) [0..<size] GradStats_zero))"

text \<open>\<open>Allreduce\<close> is the collective sum as this worker sees it: \<open>None\<close> when the
  collective fails (\<^verbatim>\<open>SafeColl\<close> then aborts), otherwise the global aggregate.\<close>

definition InitNewNode ::
  "Arith \<Rightarrow> (GradStats \<Rightarrow> GradStats option) \<Rightarrow> SplitEvaluator \<Rightarrow> nat list \<Rightarrow> (nat \<Rightarrow> GradStats list) \<Rightarrow>
   (nat \<Rightarrow> nat list) \<Rightarrow> GradStats list \<Rightarrow> RegTree \<Rightarrow> HistUpdater \<Rightarrow> nat \<Rightarrow> error + HistUpdater" where
  "InitNewNode ar Allreduce evaluator row_ptr hist row_set_collection gpair tree st nid =
     (let snode0 = Resize (snode_host st) (NumNodes tree) NodeEntry_init;
          r = (if IsRoot tree nid then
                 (case Allreduce (root_grad_stat ar row_ptr hist row_set_collection gpair st nid) of
                    None \<Rightarrow> Inl CollectiveFailed
                  | Some grad_stat \<Rightarrow> Inr (snode0[nid := (snode0 ! nid)\<lparr>stats := grad_stat\<rparr>]))
               else
                 (let parent_id = Parent tree nid in
                  if IsLeftChild tree nid
                  then Inr (snode0[nid := (snode0 ! nid)\<lparr>stats := left_sum (best (snode0 ! parent_id))\<rparr>])
                  else Inr (snode0[nid := (snode0 ! nid)\<lparr>stats := right_sum (best (snode0 ! parent_id))\<rparr>])))
      in case r of
           Inl e \<Rightarrow> Inl e
         | Inr snode1 \<Rightarrow>
            (let parentid = Parent tree nid;
                 snode2 = snode1[nid := (snode1 ! nid)\<lparr>weight := CalcWeight evaluator parentid (stats (snode1 ! nid))\<rparr>];
                 snode3 = snode2[nid := (snode2 ! nid)\<lparr>root_gain := CalcGain evaluator parentid (stats (snode2 ! nid))\<rparr>]
             in Inr (st\<lparr>snode_host := snode3\<rparr>)))"


subsection \<open>Notions used to state what the updater computes\<close>

text \<open>A pair of sums is representable in \<^verbatim>\<open>GradientSumT\<close> when the rounding leaves both components
  as they are.\<close>

definition representable :: "Arith \<Rightarrow> GradStats \<Rightarrow> bool" where
  "representable ar s = (rnd ar (sum_grad s) = sum_grad s \<and> rnd ar (sum_hess s) = sum_hess s)"



text \<open>The sum over the reals of the histogram entries of the bins \<open>a..<b\<close>, and of
  the bins \<open>ibegin..i\<close> (inclusive); and the condition that every sum of consecutive
  bins of the range \<open>ibegin..<iend\<close> is a value of \<^verbatim>\<open>GradientSumT\<close>.\<close>

definition range_sum :: "GradStats list \<Rightarrow> nat \<Rightarrow> nat \<Rightarrow> GradStats" where
  "range_sum hist_data a b =
     \<lparr>sum_grad = (\<Sum>j\<leftarrow>[a..<b]. sum_grad (hist_data ! j)),
      sum_hess = (\<Sum>j\<leftarrow>[a..<b]. sum_hess (hist_data ! j))\<rparr>"

definition bin_sum :: "GradStats list \<Rightarrow> nat \<Rightarrow> nat \<Rightarrow> GradStats" where
  "bin_sum hist_data ibegin i = range_sum hist_data ibegin (Suc i)"

definition exact_bin_sums :: "Arith \<Rightarrow> GradStats list \<Rightarrow> nat \<Rightarrow> nat \<Rightarrow> bool" where
  "exact_bin_sums ar hist_data ibegin iend =
     (\<forall>a\<in>set [ibegin..<Suc iend]. \<forall>b\<in>set [ibegin..<Suc iend].
         a \<le> b \<longrightarrow> representable ar (range_sum hist_data a b))"

text \<open>The cut pointers of a feature are in the range in which the casts to \<^verbatim>\<open>int32_t\<close>
  keep them and the loop counter of \<^verbatim>\<open>EnumerateSplit\<close> does not overflow.\<close>

definition int32_range :: "nat list \<Rightarrow> nat \<Rightarrow> nat \<Rightarrow> bool" where
  "int32_range cut_ptr fid sub_group_size =
     (cut_ptr ! fid < 2 ^ 31 \<and> cut_ptr ! (fid + 1) + sub_group_size \<le> 2 ^ 31)"

text \<open>The bins lane \<open>local_id\<close> visits, in the order of its loop.\<close>

definition lane_bins :: "nat \<Rightarrow> nat \<Rightarrow> nat \<Rightarrow> nat \<Rightarrow> nat list" where
  "lane_bins sub_group_size local_id ibegin iend =
     for_stride (ibegin + local_id) iend sub_group_size (\<lambda>i xs. xs @ [i]) []"

text \<open>The value of \<^verbatim>\<open>sum\<close> that a lane holds at each bin it visits, after the scan of
  the round (the left sum of the split at that bin): \<^verbatim>\<open>sum\<close> is passed through
  \<open>scan_add\<close> and \<open>catch_up\<close> along the bins of the lane.\<close>

fun sums_along ::
  "(nat \<Rightarrow> GradStats \<Rightarrow> GradStats) \<Rightarrow> (nat \<Rightarrow> GradStats \<Rightarrow> GradStats) \<Rightarrow> nat list \<Rightarrow> GradStats \<Rightarrow>
   (nat \<times> GradStats) list" where
  "sums_along scan catch [] s = []"
| "sums_along scan catch (i # bins) s = (i, scan i s) # sums_along scan catch bins (catch i (scan i s))"

definition lane_sums :: "Arith \<Rightarrow> nat \<Rightarrow> nat \<Rightarrow> GradStats list \<Rightarrow> nat \<Rightarrow> nat \<Rightarrow> (nat \<times> GradStats) list" where
  "lane_sums ar sub_group_size local_id hist_data ibegin iend =
     sums_along (scan_add ar local_id hist_data)
       (catch_up ar sub_group_size local_id hist_data iend)
       (lane_bins sub_group_size local_id ibegin iend) \<lparr>sum_grad = 0, sum_hess = 0\<rparr>"

text \<open>The split at bin \<open>i\<close> with the left sum \<open>left\<close>, as the specification describes
  it: complementary right sum, gain over the root gain, threshold; and the test of the
  minimal child weight.\<close>

definition split_candidate ::
  "Arith \<Rightarrow> real list \<Rightarrow> NodeEntry \<Rightarrow> nat \<Rightarrow> nat \<Rightarrow> SplitEvaluator \<Rightarrow> nat \<Rightarrow> GradStats \<Rightarrow> SplitEntry" where
  "split_candidate ar cut_val snode fid nodeID evaluator i left =
     \<lparr>loss_chg = to_float ar (CalcSplitGain evaluator nodeID fid left
                   (GradStats_minus ar (stats snode) left) - root_gain snode),
      sindex = fid, split_value = cut_val ! i, default_left = False,
      left_sum = left,
      right_sum = GradStats_minus ar (stats snode) left\<rparr>"

definition qualifies :: "Arith \<Rightarrow> NodeEntry \<Rightarrow> real \<Rightarrow> GradStats \<Rightarrow> bool" where
  "qualifies ar snode mcw left =
     (mcw \<le> sum_hess left \<and> mcw \<le> sum_hess (GradStats_minus ar (stats snode) left))"

text \<open>One step of a lane at bin \<open>i\<close> with the left sum \<open>left\<close>: the candidate is
  handed to \<^verbatim>\<open>Update\<close> when it passes the test.\<close>

definition try_bin ::
  "Arith \<Rightarrow> real list \<Rightarrow> NodeEntry \<Rightarrow> nat \<Rightarrow> nat \<Rightarrow> SplitEvaluator \<Rightarrow> real \<Rightarrow> nat \<times> GradStats \<Rightarrow>
   SplitEntry \<Rightarrow> SplitEntry" where
  "try_bin ar cut_val snode fid nodeID evaluator mcw x b =
     (if qualifies ar snode mcw (snd x)
      then Update b (split_candidate ar cut_val snode fid nodeID evaluator (fst x) (snd x)) else b)"

subsection \<open>Example inputs\<close>

text \<open>A parameter set that passes the configuration checks, a fresh updater, three rows
  and one feature with two bins (cut pointers \<open>[0, 2]\<close>).\<close>

definition ex_param :: "real \<Rightarrow> SamplingMethod \<Rightarrow> TrainParam" where
  "ex_param r m = \<lparr>max_depth = 6, max_leaves = 0, grow_policy = kDepthWise, subsample = r,
      sampling_method = m, min_child_weight = 1\<rparr>"

definition ex_updater :: "TrainParam \<Rightarrow> HistUpdater" where
  "ex_updater p = \<lparr>param = p, seed = 0, row_indices = [], data_layout = kSparseData,
      fid_least_bins = 0, snode_host = []\<rparr>"

definition ex_gpair :: "GradStats list" where
  "ex_gpair = [\<lparr>sum_grad = 1, sum_hess = 1\<rparr>, \<lparr>sum_grad = -1, sum_hess = 1\<rparr>,
               \<lparr>sum_grad = 1, sum_hess = 1\<rparr>]"

definition ex_gpair_neg :: "GradStats list" where
  "ex_gpair_neg = [\<lparr>sum_grad = 1, sum_hess = 1\<rparr>, \<lparr>sum_grad = 2, sum_hess = -1\<rparr>,
               \<lparr>sum_grad = -1, sum_hess = 1\<rparr>]"

definition ex_info :: MetaInfo where
  "ex_info = \<lparr>num_row = 3, num_col = 1, num_nonzero = 3\<rparr>"


text \<open>A gain of the usual shape, a tree with a root and its two children, a tree that
  has its root only, an entry for the root that records a split, and a quantized matrix
  with one feature: row \<open>r\<close> is in bin \<open>r mod 2\<close>.\<close>

definition ex_evaluator :: SplitEvaluator where
  "ex_evaluator =
     \<lparr>CalcSplitGain = (\<lambda>nodeID fid l r.
          (sum_grad l)\<^sup>2 / sum_hess l + (sum_grad r)\<^sup>2 / sum_hess r),
      CalcWeight = (\<lambda>parentid s. - sum_grad s / sum_hess s),
      CalcGain = (\<lambda>parentid s. (sum_grad s)\<^sup>2 / sum_hess s)\<rparr>"

definition ex_tree :: RegTree where
  "ex_tree = \<lparr>NumNodes = 3, IsRoot = (\<lambda>n. n = 0), Parent = (\<lambda>n. if n = 0 then 2147483647 else 0),
      IsLeftChild = (\<lambda>n. n = 1), GetDepth = (\<lambda>n. if n = 0 then 0 else 1)\<rparr>"

definition ex_tree_root :: RegTree where
  "ex_tree_root = \<lparr>NumNodes = 1, IsRoot = (\<lambda>n. n = 0), Parent = (\<lambda>n. 2147483647),
      IsLeftChild = (\<lambda>n. False), GetDepth = (\<lambda>n. 0)\<rparr>"

definition ex_root_entry :: NodeEntry where
  "ex_root_entry =
     \<lparr>stats = \<lparr>sum_grad = 1, sum_hess = 3\<rparr>, root_gain = 1 / 3, weight = - 1 / 3,
      best = \<lparr>loss_chg = 7 / 6, sindex = 0, split_value = 1 / 2, default_left = False,
              left_sum = \<lparr>sum_grad = 2, sum_hess = 2\<rparr>, right_sum = \<lparr>sum_grad = - 1, sum_hess = 1\<rparr>\<rparr>\<rparr>"




text \<open>Histograms for split evaluation: six bins of one feature in which the bins 1, 2
  and 3 give the same gain; four bins of one feature with a single best bin; three
  features with two bins each, of which features 1 and 2 have the same histogram; five
  bins with the Hessians \<open>2^24\<close>, 1, 1, 1, 1; and three bins whose first two Hessians
  are the \<^verbatim>\<open>float\<close> values nearest to 0.1 and 0.2, for a minimal child weight that is the
  \<^verbatim>\<open>float\<close> nearest to 0.3.\<close>

definition ex_cut_val :: "real list" where
  "ex_cut_val = [10, 11, 12, 13, 14, 15]"

definition ex_hist_ties :: "GradStats list" where
  "ex_hist_ties =
     [\<lparr>sum_grad = 0, sum_hess = 1\<rparr>, \<lparr>sum_grad = 4, sum_hess = 1\<rparr>, \<lparr>sum_grad = 1, sum_hess = 3\<rparr>,
      \<lparr>sum_grad = - 1, sum_hess = 3\<rparr>, \<lparr>sum_grad = - 4, sum_hess = 1\<rparr>, \<lparr>sum_grad = 0, sum_hess = 1\<rparr>]"

definition ex_snode :: "real \<Rightarrow> NodeEntry" where
  "ex_snode h = \<lparr>stats = \<lparr>sum_grad = 0, sum_hess = h\<rparr>, root_gain = 0, weight = 0, best = SplitEntry_default\<rparr>"

definition ex_hist :: "GradStats list" where
  "ex_hist =
     [\<lparr>sum_grad = 3, sum_hess = 1\<rparr>, \<lparr>sum_grad = - 1, sum_hess = 1\<rparr>, \<lparr>sum_grad = - 1, sum_hess = 1\<rparr>,
      \<lparr>sum_grad = - 1, sum_hess = 1\<rparr>]"



definition ex_hist_large :: "GradStats list" where
  "ex_hist_large =
     [\<lparr>sum_grad = 0, sum_hess = 16777216\<rparr>, \<lparr>sum_grad = 0, sum_hess = 1\<rparr>, \<lparr>sum_grad = 0, sum_hess = 1\<rparr>,
      \<lparr>sum_grad = 0, sum_hess = 1\<rparr>, \<lparr>sum_grad = 0, sum_hess = 1\<rparr>]"

definition ex_snode_large :: NodeEntry where
  "ex_snode_large = \<lparr>stats = \<lparr>sum_grad = 4, sum_hess = 16777220\<rparr>, root_gain = 0, weight = 0,
      best = SplitEntry_default\<rparr>"

definition ex_hist_tenths :: "GradStats list" where
  "ex_hist_tenths =
     [\<lparr>sum_grad = 1, sum_hess = 13421773 / 134217728\<rparr>, \<lparr>sum_grad = 1, sum_hess = 13421773 / 67108864\<rparr>,
      \<lparr>sum_grad = - 2, sum_hess = 3 / 2\<rparr>]"

definition ex_snode_tenths :: NodeEntry where
  "ex_snode_tenths = \<lparr>stats = \<lparr>sum_grad = 0, sum_hess = 7549747 / 4194304\<rparr>, root_gain = 0, weight = 0,
      best = SplitEntry_default\<rparr>"


section \<open>Row-set initialisation\<close>

subsection \<open>Schedules, resizing and the kernels\<close>

lemma is_schedule_set: "is_schedule n sched \<Longrightarrow> set sched = {0..<n}"
  unfolding is_schedule_def by (metis set_sort set_upt)

lemma is_schedule_distinct: "is_schedule n sched \<Longrightarrow> distinct sched"
  unfolding is_schedule_def by (metis distinct_sort distinct_upt)

lemma is_schedule_length: "is_schedule n sched \<Longrightarrow> length sched = n"
  unfolding is_schedule_def by (metis length_sort length_upt diff_zero)

lemma length_Resize: "length (Resize xs n v) = n"
  by (simp add: Resize_def)

lemma nth_Resize: "i < n \<Longrightarrow> Resize xs n v ! i = (if i < length xs then xs ! i else v)"
  by (simp add: Resize_def nth_append)

lemma Resize_take: "n \<le> length xs \<Longrightarrow> Resize xs n v = take n xs"
  by (simp add: Resize_def)

lemma compact_fold:
  "m0 + length (filter K xs) \<le> length p0 \<Longrightarrow>
   \<exists>p'. fold (\<lambda>i (m, p). if K i then (m + 1, p[m := i]) else (m, p)) xs (m0, p0)
          = (m0 + length (filter K xs), p')
        \<and> length p' = length p0
        \<and> take (m0 + length (filter K xs)) p' = take m0 p0 @ filter K xs"
proof (induction xs arbitrary: m0 p0)
  case Nil
  then show ?case by simp
next
  case (Cons x xs)
  show ?case
  proof (cases "K x")
    case True
    with Cons.prems have le: "Suc m0 + length (filter K xs) \<le> length (p0[m0 := x])" by simp
    from Cons.IH[OF le] obtain p' where
      p': "fold (\<lambda>i (m, p). if K i then (m + 1, p[m := i]) else (m, p)) xs (Suc m0, p0[m0 := x])
             = (Suc m0 + length (filter K xs), p')"
      "length p' = length (p0[m0 := x])"
      "take (Suc m0 + length (filter K xs)) p' = take (Suc m0) (p0[m0 := x]) @ filter K xs"
      by blast
    from Cons.prems True have "m0 < length p0" by simp
    then have "take (Suc m0) (p0[m0 := x]) = take m0 p0 @ [x]"
      by (simp add: take_Suc_conv_app_nth)
    with p' True show ?thesis by simp
  next
    case False
    with Cons.prems have le: "m0 + length (filter K xs) \<le> length p0" by simp
    from Cons.IH[OF le] False show ?thesis by simp
  qed
qed

lemma fill_fold:
  "fold (\<lambda>idx (flag, p). (if N idx then max flag (1::int) else flag, p[idx := idx])) xs (f0, p0)
     = (if \<exists>x\<in>set xs. N x then max f0 1 else f0, fold (\<lambda>idx p. p[idx := idx]) xs p0)"
  by (induction xs arbitrary: f0 p0) auto

lemma fold_update_length: "length (fold (\<lambda>idx p. p[idx := idx]) xs p0) = length p0"
  by (induction xs arbitrary: p0) auto

lemma fold_update_nth:
  "i < length p0 \<Longrightarrow> fold (\<lambda>idx p. p[idx := idx]) xs p0 ! i = (if i \<in> set xs then i else p0 ! i)"
  by (induction xs arbitrary: p0) (auto simp: nth_list_update)

lemma fold_update_identity:
  assumes "set xs = {0..<n}" "length p0 = n"
  shows "fold (\<lambda>idx p. p[idx := idx]) xs p0 = [0..<n]"
  by (rule nth_equalityI) (use assms in \<open>auto simp: fold_update_length fold_update_nth\<close>)

lemma InitData_fill_eq:
  assumes "is_schedule n sched" "length p = n"
  shows "InitData_fill sched gpair p = (if \<exists>i<n. GetHess (gpair ! i) < 0 then 1 else 0, [0..<n])"
  using is_schedule_set[OF assms(1)] assms(2)
  by (auto simp: InitData_fill_def parallel_for_def fill_fold fold_update_identity)

lemma InitData_compact_eq:
  assumes "is_schedule n sched" "length p = n"
  shows "\<exists>p'. InitData_compact sched gpair p = (length (filter (\<lambda>i. GetHess (gpair ! i) \<ge> 0) sched), p')
     \<and> Resize p' (length (filter (\<lambda>i. GetHess (gpair ! i) \<ge> 0) sched)) 0 = filter (\<lambda>i. GetHess (gpair ! i) \<ge> 0) sched"
proof -
  let ?K = "\<lambda>i. GetHess (gpair ! i) \<ge> 0"
  have le: "0 + length (filter ?K sched) \<le> length p"
    using is_schedule_length[OF assms(1)] assms(2) length_filter_le[of ?K sched] by simp
  from compact_fold[OF le] obtain p' where
    "fold (\<lambda>i (m, p). if ?K i then (m + 1, p[m := i]) else (m, p)) sched (0, p) = (0 + length (filter ?K sched), p')"
    "length p' = length p" "take (0 + length (filter ?K sched)) p' = take 0 p @ filter ?K sched"
    by blast
  with le show ?thesis
    by (auto simp: InitData_compact_def parallel_for_def Resize_take)
qed

lemma InitSampling_eq:
  assumes "is_schedule (length (row_indices st)) sched"
  shows "InitSampling sched coin_flip gpair st =
     st\<lparr>seed := seed st + of_nat (length (row_indices st)),
        row_indices := filter (\<lambda>i. GetHess (gpair ! i) \<ge> 0 \<and> coin_flip (seed st) i (subsample (param st))) sched\<rparr>"
proof -
  let ?K = "\<lambda>i. GetHess (gpair ! i) \<ge> 0 \<and> coin_flip (seed st) i (subsample (param st))"
  have le: "0 + length (filter ?K sched) \<le> length (row_indices st)"
    using is_schedule_length[OF assms(1)] length_filter_le[of ?K sched] by simp
  from compact_fold[OF le] obtain p' where
    "fold (\<lambda>i (m, p). if ?K i then (m + 1, p[m := i]) else (m, p)) sched (0, row_indices st) = (0 + length (filter ?K sched), p')"
    "length p' = length (row_indices st)" "take (0 + length (filter ?K sched)) p' = take 0 (row_indices st) @ filter ?K sched"
    by blast
  with le show ?thesis
    by (simp add: InitSampling_def parallel_for_def Resize_take Let_def)
qed

lemma InitData_row_set_eq:
  assumes "is_schedule (num_row info) sched"
  shows "InitData_row_set sched coin_flip gpair info st =
    (if subsample (param st) < 1 then
       (if sampling_method (param st) \<noteq> kUniform then Inl OnlyUniformSampling
        else Inr (st\<lparr>seed := seed st + of_nat (num_row info),
               row_indices := filter (\<lambda>i. GetHess (gpair ! i) \<ge> 0 \<and> coin_flip (seed st) i (subsample (param st))) sched\<rparr>))
     else if \<exists>i<num_row info. GetHess (gpair ! i) < 0
       then Inr (st\<lparr>row_indices := filter (\<lambda>i. GetHess (gpair ! i) \<ge> 0) sched\<rparr>)
       else Inr (st\<lparr>row_indices := [0..<num_row info]\<rparr>))"
proof -
  let ?p = "Resize (row_indices st) (num_row info) 0"
  have len: "length ?p = num_row info" by (simp add: length_Resize)
  have s: "is_schedule (length (row_indices (st\<lparr>row_indices := ?p\<rparr>))) sched"
    using assms by (simp add: length_Resize)
  note fill = InitData_fill_eq[OF assms len, of gpair]
  have len2: "length [0..<num_row info] = num_row info" by simp
  from InitData_compact_eq[OF assms len2, of gpair] obtain p' where
    c: "InitData_compact sched gpair [0..<num_row info] = (length (filter (\<lambda>i. GetHess (gpair ! i) \<ge> 0) sched), p')"
     "Resize p' (length (filter (\<lambda>i. GetHess (gpair ! i) \<ge> 0) sched)) 0 = filter (\<lambda>i. GetHess (gpair ! i) \<ge> 0) sched"
    by blast
  show ?thesis
    unfolding InitData_row_set_def Let_def
    by (auto simp: InitSampling_eq[OF s] fill c length_Resize)
qed

lemma InitData_Inr_row_set:
  assumes "InitData sched coin_flip row_ptr gpair info st = Inr st'"
  shows "\<exists>st1. InitData_row_set sched coin_flip gpair info st = Inr st1
            \<and> row_indices st' = row_indices st1"
  using assms
  by (auto simp: InitData_def Let_def split: if_splits sum.splits prod.splits)

text \<open>Evaluation of the examples.\<close>

lemma replicate_numeral_eval: "replicate (numeral k) x = x # replicate (pred_numeral k) x"
  by (simp add: numeral_eq_Suc)

lemma list_update_numeral_eval: "(x # xs)[numeral k := y] = x # xs[pred_numeral k := y]"
  by (simp add: numeral_eq_Suc)

lemma ex_schedule: "is_schedule (num_row ex_info) [2, 0, 1]"
  by (simp add: is_schedule_def ex_info_def upt_conv_Cons)

lemma ex_hess: "\<forall>i<num_row ex_info. 0 \<le> GetHess (ex_gpair ! i)"
  by (simp add: ex_info_def ex_gpair_def GetHess_def numeral_3_eq_3 less_Suc_eq)

subsection \<open>Claims about the row set\<close>

text \<open>
  C5. With subsample rate 1 and no negative Hessian, the row-set block of \<^verbatim>\<open>InitData\<close>
  leaves the row index set equal to the full row set, row \<open>i\<close> at position \<open>i\<close>, for
  every schedule of the kernel; the flag \<^verbatim>\<open>has_neg_hess\<close> stays 0, so the branch that
  launches the compaction kernel is not taken. Whenever \<^verbatim>\<open>InitData\<close> returns, the row
  indices of its state are that list.
\<close>

theorem InitData_full_row_set:
  assumes "subsample (param st) = 1"
    and "\<forall>i<num_row info. 0 \<le> GetHess (gpair ! i)"
    and "is_schedule (num_row info) sched"
  shows "InitData_row_set sched coin_flip gpair info st = Inr (st\<lparr>row_indices := [0..<num_row info]\<rparr>)
     \<and> fst (InitData_fill sched gpair (Resize (row_indices st) (num_row info) 0)) = 0
     \<and> (\<forall>st'. InitData sched coin_flip row_ptr gpair info st = Inr st'
            \<longrightarrow> row_indices st' = [0..<num_row info])"
proof -
  have not_neg: "\<not> (\<exists>i<num_row info. GetHess (gpair ! i) < 0)"
    using assms(2) by (auto simp: not_less)
  have rs: "InitData_row_set sched coin_flip gpair info st = Inr (st\<lparr>row_indices := [0..<num_row info]\<rparr>)"
    using assms(1) not_neg by (auto simp: InitData_row_set_eq[OF assms(3)])
  have fl: "fst (InitData_fill sched gpair (Resize (row_indices st) (num_row info) 0)) = 0"
    using not_neg by (simp add: InitData_fill_eq[OF assms(3)] length_Resize)
  have "row_indices st' = [0..<num_row info]"
    if "InitData sched coin_flip row_ptr gpair info st = Inr st'" for st'
    using InitData_Inr_row_set[OF that] rs by auto
  with rs fl show ?thesis by blast
qed

theorem InitData_full_row_set_witness:
  "InitData_row_set [2, 0, 1] (\<lambda>s i r. False) ex_gpair ex_info (ex_updater (ex_param 1 kUniform))
     = Inr ((ex_updater (ex_param 1 kUniform))\<lparr>row_indices := [0, 1, 2]\<rparr>)
   \<and> fst (InitData_fill [2, 0, 1] ex_gpair (Resize [] 3 0)) = 0"
proof -
  have h1: "subsample (param (ex_updater (ex_param 1 kUniform))) = 1"
    by (simp add: ex_updater_def ex_param_def)
  show ?thesis
    using InitData_full_row_set[OF h1 ex_hess ex_schedule, of "\<lambda>s i r. False" "[0, 2]"]
    by (simp add: ex_info_def ex_updater_def upt_conv_Cons)
qed

text \<open>
  C6. Whatever the subsample rate and the gradient pairs, whenever \<^verbatim>\<open>InitData\<close> returns,
  every row in the row index set has a nonnegative Hessian; the set holds exactly the
  rows kept (nonnegative Hessian and, on the path of \<^verbatim>\<open>InitSampling\<close>, a successful coin
  flip), each once, and the length of the buffer is the number of rows kept. This holds
  for every schedule of the kernels.
\<close>

theorem InitData_excludes_negative_hessians:
  assumes "is_schedule (num_row info) sched"
    and "InitData sched coin_flip row_ptr gpair info st = Inr st'"
  shows "(\<forall>r\<in>set (row_indices st'). r < num_row info \<and> 0 \<le> GetHess (gpair ! r))
     \<and> set (row_indices st') =
         {r. r < num_row info \<and> 0 \<le> GetHess (gpair ! r) \<and>
             (subsample (param st) < 1 \<longrightarrow> coin_flip (seed st) r (subsample (param st)))}
     \<and> distinct (row_indices st')
     \<and> length (row_indices st') =
         card {r. r < num_row info \<and> 0 \<le> GetHess (gpair ! r) \<and>
             (subsample (param st) < 1 \<longrightarrow> coin_flip (seed st) r (subsample (param st)))}"
proof -
  let ?K = "\<lambda>r. 0 \<le> GetHess (gpair ! r) \<and>
             (subsample (param st) < 1 \<longrightarrow> coin_flip (seed st) r (subsample (param st)))"
  from InitData_Inr_row_set[OF assms(2)] obtain st1 where
    st1: "InitData_row_set sched coin_flip gpair info st = Inr st1" "row_indices st' = row_indices st1"
    by blast
  note S = is_schedule_set[OF assms(1)] and D = is_schedule_distinct[OF assms(1)]
  have all_id: "filter ?K sched = sched" if "\<not> subsample (param st) < 1" "\<not> (\<exists>i<num_row info. GetHess (gpair ! i) < 0)"
  proof -
    have "0 \<le> GetHess (gpair ! r)" if "r \<in> set sched" for r
    proof -
      from that S have "r < num_row info" by auto
      with \<open>\<not> (\<exists>i<num_row info. GetHess (gpair ! i) < 0)\<close>
      have "\<not> GetHess (gpair ! r) < 0" by blast
      then show ?thesis by simp
    qed
    with \<open>\<not> subsample (param st) < 1\<close> show ?thesis by (simp add: filter_id_conv)
  qed
  have "row_indices st1 = filter ?K sched \<or> (row_indices st1 = [0..<num_row info] \<and> filter ?K sched = sched)"
    using st1(1) all_id unfolding InitData_row_set_eq[OF assms(1)]
    by (auto split: if_splits)
  then have "set (row_indices st1) = set (filter ?K sched) \<and> distinct (row_indices st1)"
  proof
    assume "row_indices st1 = filter ?K sched"
    with D show ?thesis by simp
  next
    assume a: "row_indices st1 = [0..<num_row info] \<and> filter ?K sched = sched"
    then have "set (row_indices st1) = set sched" using S by simp
    with a show ?thesis by simp
  qed
  then have set_eq: "set (row_indices st') = {r. r < num_row info \<and> ?K r}"
    and dist: "distinct (row_indices st')"
    using S st1(2) by auto
  have "length (row_indices st') = card (set (row_indices st'))"
    using dist by (simp add: distinct_card)
  with set_eq dist show ?thesis by auto
qed

lemma ex_InitData_sampled:
  "InitData [2, 0, 1] (\<lambda>s i r. i \<noteq> 2) [0, 2] ex_gpair_neg ex_info (ex_updater (ex_param (1/2) kUniform))
    = Inr \<lparr>param = ex_param (1/2) kUniform, seed = 3, row_indices = [0], data_layout = kDenseDataZeroBased,
      fid_least_bins = 0, snode_host = []\<rparr>"
  by (simp add: InitData_def InitData_row_set_def InitSampling_def parallel_for_def Resize_def
      ex_updater_def ex_param_def ex_info_def ex_gpair_neg_def GetHess_def determine_layout_def
      size_t_mul_def u32_sub_def least_bins_def replicate_numeral_eval list_update_numeral_eval)

theorem InitData_excludes_negative_hessians_witness:
  "\<exists>st'. InitData [2, 0, 1] (\<lambda>s i r. i \<noteq> 2) [0, 2] ex_gpair_neg ex_info
            (ex_updater (ex_param (1/2) kUniform)) = Inr st'
     \<and> row_indices st' = [0]
     \<and> set (row_indices st') = {r. r < 3 \<and> 0 \<le> GetHess (ex_gpair_neg ! r) \<and> r \<noteq> 2}
     \<and> length (row_indices st') = card {r. r < 3 \<and> 0 \<le> GetHess (ex_gpair_neg ! r) \<and> r \<noteq> 2}"
  using InitData_excludes_negative_hessians[OF ex_schedule ex_InitData_sampled] ex_InitData_sampled
  by (simp add: ex_info_def ex_updater_def ex_param_def)

text \<open>
  C7, as amended. When a sampling method other than uniform is requested and the
  subsample rate is below 1, \<^verbatim>\<open>InitData\<close> fails: with the error of a configuration check
  that comes first, otherwise with the error that only uniform sampling is supported.
\<close>

theorem InitData_nonuniform_fails:
  assumes "sampling_method (param st) \<noteq> kUniform" and "subsample (param st) < 1"
  shows "InitData sched coin_flip row_ptr gpair info st =
     Inl (if \<not> (max_depth (param st) > 0 \<or> max_leaves (param st) > 0) then MaxDepthAndMaxLeavesZero
          else if grow_policy (param st) = kDepthWise \<and> \<not> max_depth (param st) > 0
          then DepthWiseMaxDepthZero else OnlyUniformSampling)"
  using assms by (simp add: InitData_def InitData_row_set_def)

theorem InitData_nonuniform_fails_witness:
  "InitData [2, 0, 1] (\<lambda>s i r. True) [0, 2] ex_gpair ex_info (ex_updater (ex_param (1/2) kGradientBased))
     = Inl OnlyUniformSampling"
proof -
  have h1: "sampling_method (param (ex_updater (ex_param (1/2) kGradientBased))) \<noteq> kUniform"
    by (simp add: ex_updater_def ex_param_def)
  have h2: "subsample (param (ex_updater (ex_param (1/2) kGradientBased))) < 1"
    by (simp add: ex_updater_def ex_param_def)
  show ?thesis
    using InitData_nonuniform_fails[OF h1 h2, of "[2, 0, 1]" "\<lambda>s i r. True" "[0, 2]" ex_gpair ex_info]
    by (simp add: ex_updater_def ex_param_def)
qed

text \<open>
  C7 as stated fails: the check of the sampling method is inside the branch
  \<^verbatim>\<open>subsample < 1\<close>. With subsample rate 1 and gradient-based sampling requested,
  \<^verbatim>\<open>InitData\<close> returns a state.
\<close>

theorem InitData_nonuniform_counterexample:
  "sampling_method (param (ex_updater (ex_param 1 kGradientBased))) \<noteq> kUniform
   \<and> InitData [0, 1, 2] (\<lambda>s i r. True) [0, 2] ex_gpair ex_info (ex_updater (ex_param 1 kGradientBased))
     = Inr \<lparr>param = ex_param 1 kGradientBased, seed = 0, row_indices = [0, 1, 2],
            data_layout = kDenseDataZeroBased, fid_least_bins = 0, snode_host = []\<rparr>"
  by (simp add: InitData_def InitData_row_set_def InitData_fill_def parallel_for_def Resize_def
      ex_updater_def ex_param_def ex_info_def ex_gpair_def GetHess_def determine_layout_def
      size_t_mul_def u32_sub_def least_bins_def replicate_numeral_eval list_update_numeral_eval)


section \<open>Node statistics\<close>

text \<open>Evaluation of the rounding at numerals.\<close>

lemma floor_log2_numeral:
  "floor_log2 (numeral k) = (if numeral k < (2::nat) then 0 else Suc (floor_log2 (numeral k div 2)))"
  by (rule floor_log2.simps)

lemma floor_log2_small: "floor_log2 0 = 0" "floor_log2 (Suc 0) = 0"
  by (simp_all add: floor_log2.simps)

lemmas float_eval =
  float_arith_def binary32_def round_to_def round_half_even_def ilog2_def
  floor_log2_numeral floor_log2_small Let_def

lemma InitNewNode_Inr:
  assumes "InitNewNode ar Allreduce evaluator row_ptr hist rsc gpair tree st nid = Inr st'"
  shows "\<exists>g. st' = st\<lparr>snode_host :=
            (Resize (snode_host st) (NumNodes tree) NodeEntry_init)
              [nid := (Resize (snode_host st) (NumNodes tree) NodeEntry_init ! nid)
                 \<lparr>stats := g, weight := CalcWeight evaluator (Parent tree nid) g,
                  root_gain := CalcGain evaluator (Parent tree nid) g\<rparr>]\<rparr>
     \<and> (if IsRoot tree nid
         then Allreduce (root_grad_stat ar row_ptr hist rsc gpair st nid) = Some g
         else g = (if IsLeftChild tree nid
                   then left_sum (best (Resize (snode_host st) (NumNodes tree) NodeEntry_init ! Parent tree nid))
                   else right_sum (best (Resize (snode_host st) (NumNodes tree) NodeEntry_init ! Parent tree nid))))"
proof (cases "nid < NumNodes tree")
  case True
  then show ?thesis
    using assms
    by (auto simp: InitNewNode_def Let_def length_Resize split: if_splits option.splits)
next
  case False
  then have "xs[nid := v] = xs" if "length xs = NumNodes tree" for xs :: "NodeEntry list" and v
    using that by (simp add: list_update_beyond)
  then show ?thesis
    using assms
    by (auto simp: InitNewNode_def Let_def length_Resize split: if_splits option.splits)
qed

lemma ex_InitNewNode:
  "InitNewNode float_arith (\<lambda>g. None) ex_evaluator [0, 2] (\<lambda>n. []) (\<lambda>n. []) [] ex_tree
      ((ex_updater (ex_param 1 kUniform))\<lparr>snode_host := [ex_root_entry]\<rparr>) 1
   = Inr ((ex_updater (ex_param 1 kUniform))\<lparr>snode_host :=
        [ex_root_entry,
         \<lparr>stats = \<lparr>sum_grad = 2, sum_hess = 2\<rparr>, root_gain = 2, weight = - 1, best = SplitEntry_default\<rparr>,
         NodeEntry_init]\<rparr>)"
  by (simp add: InitNewNode_def Resize_def ex_tree_def ex_evaluator_def ex_root_entry_def
      NodeEntry_init_def replicate_numeral_eval list_update_numeral_eval)




subsection \<open>Claims about InitNewNode on a node that is not the root\<close>

text \<open>
  C8. For a node \<open>nid\<close> that is not the root, \<^verbatim>\<open>InitNewNode\<close> returns and the statistics of
  \<open>nid\<close> are the parent's recorded \<^verbatim>\<open>best.left_sum\<close> when \<open>nid\<close> is the left child and
  \<^verbatim>\<open>best.right_sum\<close> otherwise. The result does not depend on the gradient pairs, the
  histograms, the row sets, the cut pointers, the collective or the arithmetic of
  \<^verbatim>\<open>GradientSumT\<close>: no pass over the data, no communication and no sum.
\<close>

theorem InitNewNode_child_stats:
  assumes "\<not> IsRoot tree nid" and "nid < NumNodes tree"
    and "Parent tree nid < NumNodes tree" and "Parent tree nid < length (snode_host st)"
  shows "(\<exists>st'. InitNewNode ar Allreduce evaluator row_ptr hist row_set_collection gpair tree st nid = Inr st'
            \<and> stats (snode_host st' ! nid) =
                (if IsLeftChild tree nid then left_sum (best (snode_host st ! Parent tree nid))
                 else right_sum (best (snode_host st ! Parent tree nid))))
     \<and> InitNewNode ar' Allreduce' evaluator row_ptr' hist' row_set_collection' gpair' tree st nid
         = InitNewNode ar Allreduce evaluator row_ptr hist row_set_collection gpair tree st nid"
  using assms
  by (simp add: InitNewNode_def Let_def length_Resize nth_Resize)

theorem InitNewNode_child_stats_witness:
  "\<exists>st'. InitNewNode float_arith (\<lambda>g. None) ex_evaluator [0, 2] (\<lambda>n. []) (\<lambda>n. []) [] ex_tree
      ((ex_updater (ex_param 1 kUniform))\<lparr>snode_host := [ex_root_entry]\<rparr>) 1 = Inr st'
     \<and> stats (snode_host st' ! 1) = \<lparr>sum_grad = 2, sum_hess = 2\<rparr>"
proof -
  let ?st = "(ex_updater (ex_param 1 kUniform))\<lparr>snode_host := [ex_root_entry]\<rparr>"
  have h1: "\<not> IsRoot ex_tree 1" and h2: "1 < NumNodes ex_tree"
    and h3: "Parent ex_tree 1 < NumNodes ex_tree" and h4: "Parent ex_tree 1 < length (snode_host ?st)"
    by (simp_all add: ex_tree_def)
  show ?thesis
    using InitNewNode_child_stats[OF h1 h2 h3 h4, of float_arith "\<lambda>g. None" ex_evaluator "[0, 2]" "\<lambda>n. []" "\<lambda>n. []" "[]"]
    by (simp add: ex_tree_def ex_root_entry_def)
qed

text \<open>
  C10, as amended. \<^verbatim>\<open>InitNewNode(nid)\<close> resizes the array of node statistics to the number
  of nodes of the tree: afterwards the array has exactly that many entries, so entries
  at the indices from the number of nodes on are dropped; every entry below the number
  of nodes other than \<open>nid\<close> keeps its value (new entries are \<^verbatim>\<open>NodeEntry(param_)\<close>); entry
  \<open>nid\<close> keeps its best split; and no other member of the updater changes.
\<close>

theorem InitNewNode_frame:
  assumes "InitNewNode ar Allreduce evaluator row_ptr hist row_set_collection gpair tree st nid = Inr st'"
  shows "length (snode_host st') = NumNodes tree
     \<and> (\<forall>m<NumNodes tree. m \<noteq> nid \<longrightarrow>
           snode_host st' ! m = (if m < length (snode_host st) then snode_host st ! m else NodeEntry_init))
     \<and> (nid < NumNodes tree \<longrightarrow>
           best (snode_host st' ! nid) =
             (if nid < length (snode_host st) then best (snode_host st ! nid) else SplitEntry_default))
     \<and> st' = st\<lparr>snode_host := snode_host st'\<rparr>"
proof -
  from InitNewNode_Inr[OF assms] obtain g where
    st': "st' = st\<lparr>snode_host :=
            (Resize (snode_host st) (NumNodes tree) NodeEntry_init)
              [nid := (Resize (snode_host st) (NumNodes tree) NodeEntry_init ! nid)
                 \<lparr>stats := g, weight := CalcWeight evaluator (Parent tree nid) g,
                  root_gain := CalcGain evaluator (Parent tree nid) g\<rparr>]\<rparr>"
    by blast
  show ?thesis
    unfolding st' by (simp add: length_Resize nth_Resize NodeEntry_init_def)
qed

theorem InitNewNode_frame_witness:
  "\<exists>st'. InitNewNode float_arith (\<lambda>g. None) ex_evaluator [0, 2] (\<lambda>n. []) (\<lambda>n. []) [] ex_tree
      ((ex_updater (ex_param 1 kUniform))\<lparr>snode_host := [ex_root_entry]\<rparr>) 1 = Inr st'
     \<and> length (snode_host st') = 3 \<and> snode_host st' ! 0 = ex_root_entry
     \<and> snode_host st' ! 2 = NodeEntry_init \<and> best (snode_host st' ! 1) = SplitEntry_default"
  using InitNewNode_frame[OF ex_InitNewNode] ex_InitNewNode
  by (simp add: ex_tree_def)

text \<open>
  C10 as stated fails: the resize does not only grow the array. \<^verbatim>\<open>InitData\<close> refills the
  array without resizing it, so at the first node of the next tree it still has the
  length the previous tree gave it. With five entries and a tree that has its root
  only, \<^verbatim>\<open>InitNewNode(0)\<close> leaves one entry: the entries 1 to 4 are not preserved.
\<close>

theorem InitNewNode_frame_counterexample:
  "length (snode_host ((ex_updater (ex_param 1 kUniform))
       \<lparr>snode_host := [NodeEntry_init, NodeEntry_init, NodeEntry_init, NodeEntry_init, NodeEntry_init]\<rparr>)) = 5
   \<and> InitNewNode float_arith Some ex_evaluator [0, 2] (\<lambda>n. []) (\<lambda>n. [0, 1, 2]) ex_gpair ex_tree_root
       ((ex_updater (ex_param 1 kUniform))
          \<lparr>snode_host := [NodeEntry_init, NodeEntry_init, NodeEntry_init, NodeEntry_init, NodeEntry_init]\<rparr>) 0
     = Inr ((ex_updater (ex_param 1 kUniform))
          \<lparr>snode_host := [\<lparr>stats = \<lparr>sum_grad = 1, sum_hess = 3\<rparr>, root_gain = 1 / 3, weight = - 1 / 3,
                            best = SplitEntry_default\<rparr>]\<rparr>)"
  by (simp add: InitNewNode_def Resize_def root_grad_stat_def ex_updater_def ex_tree_root_def
      ex_evaluator_def ex_gpair_def NodeEntry_init_def GradStats_plus_def Add_def GetGrad_def
      GetHess_def GradStats_zero_def upt_conv_Cons float_eval)

subsection \<open>The root aggregate: histogram column against row reduction\<close>


























section \<open>Split evaluation\<close>

subsection \<open>The strided loop and the bins of a lane\<close>

lemma Update_args_eq:
  "Update_args b l f v d ls rs =
     Update b \<lparr>loss_chg = l, sindex = f, split_value = v, default_left = d, left_sum = ls, right_sum = rs\<rparr>"
  by (simp add: Update_args_def Update_def SplitIndex_def)

lemma for_stride_step:
  "0 < step \<Longrightarrow> i < iend \<Longrightarrow>
   for_stride i iend step body st = for_stride (i + step) iend step body (body i st)"
  by (subst for_stride.simps) simp

lemma for_stride_stop: "\<not> (0 < step \<and> i < iend) \<Longrightarrow> for_stride i iend step body st = st"
  by (subst for_stride.simps) auto

lemma for_stride_collect_acc:
  "for_stride i iend step (\<lambda>i xs. xs @ [i]) acc = acc @ for_stride i iend step (\<lambda>i xs. xs @ [i]) []"
proof (induction "iend - i" arbitrary: i acc rule: less_induct)
  case less
  show ?case
  proof (cases "0 < step \<and> i < iend")
    case True
    then have d: "iend - (i + step) < iend - i" by arith
    show ?thesis
      using True less[OF d, of "acc @ [i]"] less[OF d, of "[i]"]
      by (simp add: for_stride_step)
  next
    case False
    then show ?thesis by (simp add: for_stride_stop)
  qed
qed

lemma for_stride_fold:
  "for_stride i iend step body st = fold body (for_stride i iend step (\<lambda>i xs. xs @ [i]) []) st"
proof (induction "iend - i" arbitrary: i st rule: less_induct)
  case less
  show ?case
  proof (cases "0 < step \<and> i < iend")
    case True
    then have d: "iend - (i + step) < iend - i" by arith
    have "for_stride i iend step (\<lambda>i xs. xs @ [i]) [] = [i] @ for_stride (i + step) iend step (\<lambda>i xs. xs @ [i]) []"
      using True for_stride_collect_acc[of "i + step" iend step "[i]"] by (simp add: for_stride_step)
    then show ?thesis
      using True less[OF d, of "body i st"] by (simp add: for_stride_step)
  next
    case False
    then show ?thesis by (simp add: for_stride_stop)
  qed
qed

lemma lane_bins_step:
  "0 < sg \<Longrightarrow> i < iend \<Longrightarrow>
   for_stride i iend sg (\<lambda>i xs. xs @ [i]) [] = i # for_stride (i + sg) iend sg (\<lambda>i xs. xs @ [i]) []"
  using for_stride_collect_acc[of "i + sg" iend sg "[i]"] by (simp add: for_stride_step)

lemma set_for_stride_collect:
  assumes "0 < sg"
  shows "set (for_stride i iend sg (\<lambda>i xs. xs @ [i]) []) = {j. j < iend \<and> (\<exists>k. j = i + k * sg)}"
proof (induction "iend - i" arbitrary: i rule: less_induct)
  case less
  show ?case
  proof (cases "i < iend")
    case True
    then have d: "iend - (i + sg) < iend - i" using assms by simp
    have "{j. j < iend \<and> (\<exists>k. j = i + k * sg)} = insert i {j. j < iend \<and> (\<exists>k. j = (i + sg) + k * sg)}"
    proof (intro set_eqI iffI)
      fix j assume "j \<in> {j. j < iend \<and> (\<exists>k. j = i + k * sg)}"
      then obtain k where k: "j < iend" "j = i + k * sg" by blast
      show "j \<in> insert i {j. j < iend \<and> (\<exists>k. j = (i + sg) + k * sg)}"
      proof (cases k)
        case 0
        with k show ?thesis by simp
      next
        case (Suc k')
        with k have "j = (i + sg) + k' * sg" by simp
        with k(1) show ?thesis by blast
      qed
    next
      fix j assume "j \<in> insert i {j. j < iend \<and> (\<exists>k. j = (i + sg) + k * sg)}"
      then consider "j = i" | k where "j < iend" "j = (i + sg) + k * sg" by blast
      then show "j \<in> {j. j < iend \<and> (\<exists>k. j = i + k * sg)}"
      proof cases
        case 1
        then have "j = i + 0 * sg" by simp
        with 1 True show ?thesis by blast
      next
        case 2
        then have "j = i + Suc k * sg" by simp
        with 2(1) show ?thesis by blast
      qed
    qed
    then show ?thesis
      using True assms less[OF d] by (simp add: lane_bins_step)
  next
    case False
    then show ?thesis by (auto simp: for_stride_stop)
  qed
qed

lemma set_lane_bins:
  "0 < sg \<Longrightarrow> set (lane_bins sg l ibegin iend) = {j. j < iend \<and> (\<exists>k. j = ibegin + l + k * sg)}"
  by (simp add: lane_bins_def set_for_stride_collect)

lemma int32_range_end:
  "int32_range cut_ptr fid sg \<Longrightarrow> 0 < sg \<Longrightarrow> int32_end (cut_ptr ! (fid + 1)) = cut_ptr ! (fid + 1)"
  by (simp add: int32_range_def int32_end_def)

subsection \<open>The loop of a lane as a scan over its left sums\<close>

lemma EnumerateSplit_body_eq:
  "EnumerateSplit_body ar sg l cut_val hist_data snode fid nodeID evaluator mcw iend i (s, b)
     = (catch_up ar sg l hist_data iend i (scan_add ar l hist_data i s),
        try_bin ar cut_val snode fid nodeID evaluator mcw (i, scan_add ar l hist_data i s) b)"
  by (simp add: EnumerateSplit_body_def Let_def try_bin_def qualifies_def split_candidate_def
      Update_args_eq GetHess_def)

lemma fold_body:
  "snd (fold (EnumerateSplit_body ar sg l cut_val hist_data snode fid nodeID evaluator mcw iend) bins (s, b))
     = fold (try_bin ar cut_val snode fid nodeID evaluator mcw)
         (sums_along (scan_add ar l hist_data) (catch_up ar sg l hist_data iend) bins s) b"
  by (induction bins arbitrary: s b) (simp_all add: EnumerateSplit_body_eq)

lemma lane_best_fold:
  "lane_best ar sg l cut_ptr cut_val hist_data snode fid nodeID evaluator mcw =
     fold (try_bin ar cut_val snode fid nodeID evaluator mcw)
       (lane_sums ar sg l hist_data (cut_ptr ! fid) (int32_end (cut_ptr ! (fid + 1)))) SplitEntry_default"
  unfolding lane_best_def Let_def lane_sums_def lane_bins_def
  by (subst for_stride_fold) (rule fold_body)

lemma sums_along_fst: "map fst (sums_along scan catch bins s) = bins"
  by (induction bins arbitrary: s) simp_all

lemma lane_sums_bins: "map fst (lane_sums ar sg l hist_data ibegin iend) = lane_bins sg l ibegin iend"
  by (simp add: lane_sums_def sums_along_fst)

lemma split_candidate_sindex:
  "sindex (split_candidate ar cut_val snode fid nodeID evaluator i left) = fid"
  by (simp add: split_candidate_def)

lemma try_bin_eq:
  assumes "sindex b \<le> fid"
  shows "try_bin ar cut_val snode fid nodeID evaluator mcw x b =
     (if qualifies ar snode mcw (snd x) \<and>
         loss_chg b < loss_chg (split_candidate ar cut_val snode fid nodeID evaluator (fst x) (snd x))
      then split_candidate ar cut_val snode fid nodeID evaluator (fst x) (snd x) else b)"
  using assms
  by (auto simp: try_bin_def Update_def NeedReplace_def SplitIndex_def split_candidate_sindex)

lemma fold_try_bin:
  assumes "sindex b \<le> fid"
  shows "(fold (try_bin ar cut_val snode fid nodeID evaluator mcw) xs b = b
          \<or> (\<exists>x\<in>set xs. qualifies ar snode mcw (snd x)
                \<and> fold (try_bin ar cut_val snode fid nodeID evaluator mcw) xs b
                    = split_candidate ar cut_val snode fid nodeID evaluator (fst x) (snd x)
                \<and> loss_chg b < loss_chg (split_candidate ar cut_val snode fid nodeID evaluator (fst x) (snd x))))
     \<and> loss_chg b \<le> loss_chg (fold (try_bin ar cut_val snode fid nodeID evaluator mcw) xs b)
     \<and> (\<forall>x\<in>set xs. qualifies ar snode mcw (snd x) \<longrightarrow>
           loss_chg (split_candidate ar cut_val snode fid nodeID evaluator (fst x) (snd x))
             \<le> loss_chg (fold (try_bin ar cut_val snode fid nodeID evaluator mcw) xs b))
     \<and> sindex (fold (try_bin ar cut_val snode fid nodeID evaluator mcw) xs b) \<le> fid"
  using assms
proof (induction xs arbitrary: b)
  case Nil
  then show ?case by simp
next
  case (Cons x xs)
  let ?t = "try_bin ar cut_val snode fid nodeID evaluator mcw"
  let ?c = "\<lambda>x. split_candidate ar cut_val snode fid nodeID evaluator (fst x) (snd x)"
  let ?Q = "\<lambda>x. qualifies ar snode mcw (snd x)"
  note t = try_bin_eq[OF Cons.prems, of ar cut_val snode nodeID evaluator mcw x]
  have sb: "sindex (?t x b) \<le> fid" using Cons.prems by (simp add: t split_candidate_sindex)
  note IH = Cons.IH[OF sb]
  have mono: "loss_chg b \<le> loss_chg (?t x b)" by (simp add: t)
  have ci: "?Q x \<longrightarrow> loss_chg (?c x) \<le> loss_chg (?t x b)" by (simp add: t)
  from IH have le: "loss_chg (?t x b) \<le> loss_chg (fold ?t xs (?t x b))" by blast
  have 1: "fold ?t (x # xs) b = b
        \<or> (\<exists>y\<in>set (x # xs). ?Q y \<and> fold ?t (x # xs) b = ?c y \<and> loss_chg b < loss_chg (?c y))"
  proof -
    from IH consider "fold ?t xs (?t x b) = ?t x b"
      | y where "y \<in> set xs" "?Q y" "fold ?t xs (?t x b) = ?c y" "loss_chg (?t x b) < loss_chg (?c y)"
      by blast
    then show ?thesis
    proof cases
      case 1
      then show ?thesis by (auto simp: t)
    next
      case 2
      with mono have "loss_chg b < loss_chg (?c y)" by simp
      with 2 show ?thesis by auto
    qed
  qed
  have 2: "loss_chg b \<le> loss_chg (fold ?t (x # xs) b)" using mono le by simp
  have 3: "\<forall>y\<in>set (x # xs). ?Q y \<longrightarrow> loss_chg (?c y) \<le> loss_chg (fold ?t (x # xs) b)"
    using IH ci le by auto
  have 4: "sindex (fold ?t (x # xs) b) \<le> fid" using IH by simp
  from 1 2 3 4 show ?case by blast
qed

lemma lane_best_props:
  "(lane_best ar sg l cut_ptr cut_val hist_data snode fid nodeID evaluator mcw = SplitEntry_default
          \<or> (\<exists>x\<in>set (lane_sums ar sg l hist_data (cut_ptr ! fid) (int32_end (cut_ptr ! (fid + 1)))).
                qualifies ar snode mcw (snd x)
                \<and> lane_best ar sg l cut_ptr cut_val hist_data snode fid nodeID evaluator mcw
                    = split_candidate ar cut_val snode fid nodeID evaluator (fst x) (snd x)
                \<and> 0 < loss_chg (split_candidate ar cut_val snode fid nodeID evaluator (fst x) (snd x))))
     \<and> 0 \<le> loss_chg (lane_best ar sg l cut_ptr cut_val hist_data snode fid nodeID evaluator mcw)
     \<and> (\<forall>x\<in>set (lane_sums ar sg l hist_data (cut_ptr ! fid) (int32_end (cut_ptr ! (fid + 1)))).
           qualifies ar snode mcw (snd x) \<longrightarrow>
           loss_chg (split_candidate ar cut_val snode fid nodeID evaluator (fst x) (snd x))
             \<le> loss_chg (lane_best ar sg l cut_ptr cut_val hist_data snode fid nodeID evaluator mcw))
     \<and> sindex (lane_best ar sg l cut_ptr cut_val hist_data snode fid nodeID evaluator mcw) \<le> fid"
proof -
  have d: "sindex SplitEntry_default \<le> fid" by (simp add: SplitEntry_default_def)
  have z: "loss_chg SplitEntry_default = 0" by (simp add: SplitEntry_default_def)
  show ?thesis
    unfolding lane_best_fold
    using fold_try_bin[OF d, of ar cut_val snode nodeID evaluator mcw
        "lane_sums ar sg l hist_data (cut_ptr ! fid) (int32_end (cut_ptr ! (fid + 1)))"]
    unfolding z by blast
qed

subsection \<open>The left sums when no addition rounds\<close>

lemma exact_bin_sumsD:
  assumes "exact_bin_sums ar hist_data ibegin iend" and "ibegin \<le> a" "a \<le> b" "b \<le> iend"
  shows "rnd ar (\<Sum>j\<leftarrow>[a..<b]. sum_grad (hist_data ! j)) = (\<Sum>j\<leftarrow>[a..<b]. sum_grad (hist_data ! j))"
    and "rnd ar (\<Sum>j\<leftarrow>[a..<b]. sum_hess (hist_data ! j)) = (\<Sum>j\<leftarrow>[a..<b]. sum_hess (hist_data ! j))"
proof -
  have "a \<in> set [ibegin..<Suc iend]" "b \<in> set [ibegin..<Suc iend]" using assms(2-4) by auto
  with assms(1,3) have "representable ar (range_sum hist_data a b)"
    unfolding exact_bin_sums_def by blast
  then show "rnd ar (\<Sum>j\<leftarrow>[a..<b]. sum_grad (hist_data ! j)) = (\<Sum>j\<leftarrow>[a..<b]. sum_grad (hist_data ! j))"
    and "rnd ar (\<Sum>j\<leftarrow>[a..<b]. sum_hess (hist_data ! j)) = (\<Sum>j\<leftarrow>[a..<b]. sum_hess (hist_data ! j))"
    by (simp_all add: representable_def range_sum_def)
qed

lemma scan_exact:
  assumes "\<And>k. k \<le> l \<Longrightarrow> rnd ar (\<Sum>j\<leftarrow>[s..<s + Suc k]. F j) = (\<Sum>j\<leftarrow>[s..<s + Suc k]. F j)"
  shows "inclusive_scan_over_group ar (\<lambda>k. F (s + k)) l = (\<Sum>j\<leftarrow>[s..<s + Suc l]. F j)"
  using assms
proof (induction l)
  case 0
  then show ?case by (simp add: inclusive_scan_over_group_def)
next
  case (Suc l)
  have IH: "inclusive_scan_over_group ar (\<lambda>k. F (s + k)) l = (\<Sum>j\<leftarrow>[s..<s + Suc l]. F j)"
    by (rule Suc.IH) (rule Suc.prems, simp)
  have "inclusive_scan_over_group ar (\<lambda>k. F (s + k)) (Suc l)
      = rnd ar (inclusive_scan_over_group ar (\<lambda>k. F (s + k)) l + F (s + Suc l))"
    by (simp add: inclusive_scan_over_group_def)
  also have "\<dots> = rnd ar (\<Sum>j\<leftarrow>[s..<s + Suc (Suc l)]. F j)"
    by (simp add: IH add.assoc)
  also have "\<dots> = (\<Sum>j\<leftarrow>[s..<s + Suc (Suc l)]. F j)"
    by (rule Suc.prems) simp
  finally show ?case .
qed

lemma range_sum_empty: "range_sum hist_data a a = \<lparr>sum_grad = 0, sum_hess = 0\<rparr>"
  by (simp add: range_sum_def)

lemma range_sum_split:
  assumes "a \<le> m" "m \<le> n"
  shows "range_sum hist_data a n =
     \<lparr>sum_grad = sum_grad (range_sum hist_data a m) + (\<Sum>j\<leftarrow>[m..<n]. sum_grad (hist_data ! j)),
      sum_hess = sum_hess (range_sum hist_data a m) + (\<Sum>j\<leftarrow>[m..<n]. sum_hess (hist_data ! j))\<rparr>"
proof -
  from assms obtain k where n: "n = m + k" using le_Suc_ex by blast
  have "[a..<m + k] = [a..<m] @ [m..<m + k]" using assms(1) by (rule upt_add_eq_append)
  then show ?thesis by (simp add: range_sum_def n)
qed

lemma scan_add_exact:
  assumes ex: "exact_bin_sums ar hist_data ibegin iend"
    and "l \<le> i" "ibegin \<le> i - l" "i < iend"
  shows "scan_add ar l hist_data i (range_sum hist_data ibegin (i - l)) = bin_sum hist_data ibegin i"
proof -
  have e: "i - l + Suc l = Suc i" using assms(2) by simp
  have part: "rnd ar (\<Sum>j\<leftarrow>[i - l..<i - l + Suc k]. sum_grad (hist_data ! j))
                = (\<Sum>j\<leftarrow>[i - l..<i - l + Suc k]. sum_grad (hist_data ! j))"
      "rnd ar (\<Sum>j\<leftarrow>[i - l..<i - l + Suc k]. sum_hess (hist_data ! j))
                = (\<Sum>j\<leftarrow>[i - l..<i - l + Suc k]. sum_hess (hist_data ! j))" if "k \<le> l" for k
  proof -
    have b: "i - l \<le> i - l + Suc k" "i - l + Suc k \<le> iend" using that assms(2,4) by simp_all
    show "rnd ar (\<Sum>j\<leftarrow>[i - l..<i - l + Suc k]. sum_grad (hist_data ! j))
                = (\<Sum>j\<leftarrow>[i - l..<i - l + Suc k]. sum_grad (hist_data ! j))"
      by (rule exact_bin_sumsD(1)[OF ex assms(3) b])
    show "rnd ar (\<Sum>j\<leftarrow>[i - l..<i - l + Suc k]. sum_hess (hist_data ! j))
                = (\<Sum>j\<leftarrow>[i - l..<i - l + Suc k]. sum_hess (hist_data ! j))"
      by (rule exact_bin_sumsD(2)[OF ex assms(3) b])
  qed
  have g: "inclusive_scan_over_group ar (\<lambda>k. GetGrad (hist_data ! (i - l + k))) l
         = (\<Sum>j\<leftarrow>[i - l..<Suc i]. sum_grad (hist_data ! j))"
    using scan_exact[where l=l and ar=ar and s="i - l" and F="\<lambda>j. sum_grad (hist_data ! j)", OF part(1)]
    by (simp only: e GetGrad_def)
  have h: "inclusive_scan_over_group ar (\<lambda>k. GetHess (hist_data ! (i - l + k))) l
         = (\<Sum>j\<leftarrow>[i - l..<Suc i]. sum_hess (hist_data ! j))"
    using scan_exact[where l=l and ar=ar and s="i - l" and F="\<lambda>j. sum_hess (hist_data ! j)", OF part(2)]
    by (simp only: e GetHess_def)
  have le: "i - l \<le> Suc i" by simp
  have whole: "rnd ar (\<Sum>j\<leftarrow>[ibegin..<Suc i]. sum_grad (hist_data ! j)) = (\<Sum>j\<leftarrow>[ibegin..<Suc i]. sum_grad (hist_data ! j))"
      "rnd ar (\<Sum>j\<leftarrow>[ibegin..<Suc i]. sum_hess (hist_data ! j)) = (\<Sum>j\<leftarrow>[ibegin..<Suc i]. sum_hess (hist_data ! j))"
  proof -
    have b: "ibegin \<le> Suc i" "Suc i \<le> iend" using assms(2,3,4) by simp_all
    show "rnd ar (\<Sum>j\<leftarrow>[ibegin..<Suc i]. sum_grad (hist_data ! j)) = (\<Sum>j\<leftarrow>[ibegin..<Suc i]. sum_grad (hist_data ! j))"
      by (rule exact_bin_sumsD(1)[OF ex order_refl b])
    show "rnd ar (\<Sum>j\<leftarrow>[ibegin..<Suc i]. sum_hess (hist_data ! j)) = (\<Sum>j\<leftarrow>[ibegin..<Suc i]. sum_hess (hist_data ! j))"
      by (rule exact_bin_sumsD(2)[OF ex order_refl b])
  qed
  have split: "range_sum hist_data ibegin (Suc i) =
     \<lparr>sum_grad = sum_grad (range_sum hist_data ibegin (i - l)) + (\<Sum>j\<leftarrow>[i - l..<Suc i]. sum_grad (hist_data ! j)),
      sum_hess = sum_hess (range_sum hist_data ibegin (i - l)) + (\<Sum>j\<leftarrow>[i - l..<Suc i]. sum_hess (hist_data ! j))\<rparr>"
    by (rule range_sum_split[OF assms(3) le])
  have "scan_add ar l hist_data i (range_sum hist_data ibegin (i - l))
      = \<lparr>sum_grad = rnd ar (sum_grad (range_sum hist_data ibegin (Suc i))),
         sum_hess = rnd ar (sum_hess (range_sum hist_data ibegin (Suc i)))\<rparr>"
    unfolding scan_add_def g h Add_def split by simp
  also have "\<dots> = range_sum hist_data ibegin (Suc i)"
    using whole by (simp add: range_sum_def)
  finally show ?thesis by (simp add: bin_sum_def)
qed

lemma fold_Add_exact:
  assumes ex: "exact_bin_sums ar hist_data ibegin iend" and m: "ibegin \<le> m"
  shows "m \<le> e \<Longrightarrow> e \<le> iend \<Longrightarrow>
     fold (\<lambda>j s. Add ar s (GetGrad (hist_data ! j)) (GetHess (hist_data ! j))) [m..<e]
        (range_sum hist_data ibegin m) = range_sum hist_data ibegin e"
proof (induction e rule: dec_induct)
  case base
  then show ?case by simp
next
  case (step e)
  have IH: "fold (\<lambda>j s. Add ar s (GetGrad (hist_data ! j)) (GetHess (hist_data ! j))) [m..<e]
        (range_sum hist_data ibegin m) = range_sum hist_data ibegin e"
    using step by simp
  have b: "ibegin \<le> Suc e" "Suc e \<le> iend" using step m by simp_all
  have le: "ibegin \<le> e" "e \<le> Suc e" using step m by simp_all
  have split: "range_sum hist_data ibegin (Suc e) =
     \<lparr>sum_grad = sum_grad (range_sum hist_data ibegin e) + (\<Sum>j\<leftarrow>[e..<Suc e]. sum_grad (hist_data ! j)),
      sum_hess = sum_hess (range_sum hist_data ibegin e) + (\<Sum>j\<leftarrow>[e..<Suc e]. sum_hess (hist_data ! j))\<rparr>"
    by (rule range_sum_split[OF le])
  have "Add ar (range_sum hist_data ibegin e) (GetGrad (hist_data ! e)) (GetHess (hist_data ! e))
      = \<lparr>sum_grad = rnd ar (sum_grad (range_sum hist_data ibegin (Suc e))),
         sum_hess = rnd ar (sum_hess (range_sum hist_data ibegin (Suc e)))\<rparr>"
    unfolding split by (simp add: Add_def GetGrad_def GetHess_def)
  also have "\<dots> = range_sum hist_data ibegin (Suc e)"
    using exact_bin_sumsD[OF ex order_refl b] by (simp add: range_sum_def)
  finally show ?case
    using step(1) by (simp add: IH)
qed

lemma catch_up_exact:
  assumes ex: "exact_bin_sums ar hist_data ibegin iend"
    and "l < sg" "l \<le> i" "ibegin \<le> i - l" "i + sg < iend"
  shows "catch_up ar sg l hist_data iend i (bin_sum hist_data ibegin i)
       = range_sum hist_data ibegin (i - l + sg)"
proof -
  have e1: "(if i - l + sg > iend then iend else i - l + sg) = i - l + sg"
    using assms(3,5) by simp
  have a: "ibegin \<le> Suc i" "Suc i \<le> i - l + sg" "i - l + sg \<le> iend"
    using assms(2-5) by simp_all
  show ?thesis
    unfolding catch_up_def Let_def e1 bin_sum_def
    using assms(5) fold_Add_exact[OF ex a] by (simp add: not_le)
qed

lemma sums_along_exact:
  assumes "l < sg" and ex: "exact_bin_sums ar hist_data ibegin iend"
  shows "l \<le> i \<Longrightarrow> ibegin \<le> i - l \<Longrightarrow>
     sums_along (scan_add ar l hist_data) (catch_up ar sg l hist_data iend)
        (for_stride i iend sg (\<lambda>i xs. xs @ [i]) []) (range_sum hist_data ibegin (i - l))
     = map (\<lambda>j. (j, bin_sum hist_data ibegin j)) (for_stride i iend sg (\<lambda>i xs. xs @ [i]) [])"
proof (induction "iend - i" arbitrary: i rule: less_induct)
  case less
  from assms have sg: "0 < sg" by simp
  show ?case
  proof (cases "i < iend")
    case True
    note scan = scan_add_exact[OF ex less.prems True]
    show ?thesis
    proof (cases "i + sg < iend")
      case next_it: True
      have d: "iend - (i + sg) < iend - i" using True sg by arith
      have p1: "l \<le> i + sg" using less.prems by simp
      have p2: "ibegin \<le> i + sg - l" using less.prems by simp
      have e: "i + sg - l = i - l + sg" using less.prems by simp
      note catch = catch_up_exact[OF ex assms(1) less.prems next_it]
      show ?thesis
        using less.hyps[OF d p1 p2]
        by (simp add: lane_bins_step[OF sg True] scan catch e)
    next
      case False
      then have stop: "\<not> (0 < sg \<and> i + sg < iend)" by simp
      show ?thesis
        by (simp add: lane_bins_step[OF sg True] for_stride_stop[OF stop] scan)
    qed
  next
    case False
    then show ?thesis by (simp add: for_stride_stop)
  qed
qed

lemma lane_sums_exact:
  assumes "l < sg" and "exact_bin_sums ar hist_data ibegin iend"
  shows "lane_sums ar sg l hist_data ibegin iend
       = map (\<lambda>j. (j, bin_sum hist_data ibegin j)) (lane_bins sg l ibegin iend)"
proof -
  have p1: "l \<le> ibegin + l" and p2: "ibegin \<le> ibegin + l - l" by simp_all
  show ?thesis
    using sums_along_exact[OF assms p1 p2]
    by (simp add: lane_sums_def lane_bins_def range_sum_empty)
qed

text \<open>Evaluation of the examples.\<close>

lemmas EnumerateSplit_eval =
  EnumerateSplit_def lane_best_def EnumerateSplit_body_def scan_add_def catch_up_def int32_end_def
  inclusive_scan_over_group_def
  for_stride_step for_stride_stop Update_def Update_args_def NeedReplace_def SplitIndex_def
  SplitEntry_default_def GradStats_zero_def GradStats_minus_def Add_def GetGrad_def GetHess_def
  upt_conv_Cons float_eval

lemmas lane_sums_eval =
  lane_sums_def lane_bins_def scan_add_def catch_up_def inclusive_scan_over_group_def
  for_stride_step for_stride_stop Add_def GetGrad_def GetHess_def upt_conv_Cons float_eval

subsection \<open>Claims about the candidates of EnumerateSplit\<close>

text \<open>
  C3, as amended. The loop of a lane is a scan over the bins the lane visits (the bins
  \<open>ibegin + local_id + k * sub_group_size\<close> below \<open>iend\<close>). When every sum of
  consecutive bins of the feature is representable in \<^verbatim>\<open>GradientSumT\<close>, so that no
  addition of the scan rounds, the candidate handed to \<^verbatim>\<open>best.Update\<close> at bin \<open>i\<close> has as
  left sum the sum of the histogram entries of the bins \<open>ibegin..i\<close>; its right sum is
  the node's statistics minus the left sum, subtracted in \<^verbatim>\<open>GradientSumT\<close>; its loss
  change is \<^verbatim>\<open>CalcSplitGain(nodeID, fid, left, right)\<close> minus the node's root gain, taken to
  \<^verbatim>\<open>bst_float\<close>; its threshold is the cut value of bin \<open>i\<close>; and it is handed over when
  both Hessian sums reach \<open>mcw\<close>.
\<close>

theorem EnumerateSplit_candidates:
  assumes "local_id < sub_group_size"
    and "int32_range cut_ptr fid sub_group_size"
    and "exact_bin_sums ar hist_data (cut_ptr ! fid) (cut_ptr ! (fid + 1))"
  shows "lane_best ar sub_group_size local_id cut_ptr cut_val hist_data snode fid nodeID evaluator mcw =
     fold (\<lambda>i best.
        let left = \<lparr>sum_grad = (\<Sum>j\<leftarrow>[cut_ptr ! fid..<Suc i]. sum_grad (hist_data ! j)),
                    sum_hess = (\<Sum>j\<leftarrow>[cut_ptr ! fid..<Suc i]. sum_hess (hist_data ! j))\<rparr>;
            right = GradStats_minus ar (stats snode) left
        in if mcw \<le> sum_hess left \<and> mcw \<le> sum_hess right
           then Update best
                  \<lparr>loss_chg = to_float ar (CalcSplitGain evaluator nodeID fid left right - root_gain snode),
                   sindex = fid, split_value = cut_val ! i, default_left = False,
                   left_sum = left, right_sum = right\<rparr>
           else best)
       (lane_bins sub_group_size local_id (cut_ptr ! fid) (cut_ptr ! (fid + 1)))
       SplitEntry_default
   \<and> set (lane_bins sub_group_size local_id (cut_ptr ! fid) (cut_ptr ! (fid + 1)))
       = {i. i < cut_ptr ! (fid + 1) \<and> (\<exists>k. i = cut_ptr ! fid + local_id + k * sub_group_size)}"
proof -
  from assms(1) have sg: "0 < sub_group_size" by simp
  have "(\<lambda>i. try_bin ar cut_val snode fid nodeID evaluator mcw (i, bin_sum hist_data (cut_ptr ! fid) i)) =
     (\<lambda>i best.
        let left = \<lparr>sum_grad = (\<Sum>j\<leftarrow>[cut_ptr ! fid..<Suc i]. sum_grad (hist_data ! j)),
                    sum_hess = (\<Sum>j\<leftarrow>[cut_ptr ! fid..<Suc i]. sum_hess (hist_data ! j))\<rparr>;
            right = GradStats_minus ar (stats snode) left
        in if mcw \<le> sum_hess left \<and> mcw \<le> sum_hess right
           then Update best
                  \<lparr>loss_chg = to_float ar (CalcSplitGain evaluator nodeID fid left right - root_gain snode),
                   sindex = fid, split_value = cut_val ! i, default_left = False,
                   left_sum = left, right_sum = right\<rparr>
           else best)"
    by (intro ext) (simp add: try_bin_def qualifies_def split_candidate_def bin_sum_def range_sum_def Let_def)
  then show ?thesis
    unfolding lane_best_fold int32_range_end[OF assms(2) sg] lane_sums_exact[OF assms(1,3)]
    by (simp add: fold_map o_def set_lane_bins[OF sg])
qed

theorem EnumerateSplit_candidates_witness:
  "lane_best float_arith 2 1 [0, 4] ex_cut_val ex_hist (ex_snode 4) 0 0 ex_evaluator 1
     = \<lparr>loss_chg = 4, sindex = 0, split_value = 11, default_left = False,
        left_sum = \<lparr>sum_grad = 2, sum_hess = 2\<rparr>, right_sum = \<lparr>sum_grad = - 2, sum_hess = 2\<rparr>\<rparr>
   \<and> set (lane_bins 2 1 0 4) = {1, 3}"
proof -
  have h: "(1::nat) < 2" by simp
  have r: "int32_range [0, 4] 0 2" by (simp add: int32_range_def)
  have ex: "exact_bin_sums float_arith ex_hist ([0, 4] ! 0) ([0, 4] ! (0 + 1))"
    unfolding exact_bin_sums_def
    apply (simp add: upt_conv_Cons)
    apply (simp add: representable_def range_sum_def ex_hist_def upt_conv_Cons float_eval)
    done
  have bins: "lane_bins 2 (Suc 0) 0 4 = [1, 3]"
    by (simp add: lane_bins_def for_stride_step for_stride_stop)
  from EnumerateSplit_candidates[OF h r ex, of ex_cut_val "ex_snode 4" 0 ex_evaluator 1]
  show ?thesis
    by (simp add: bins ex_hist_def ex_snode_def ex_evaluator_def ex_cut_val_def GradStats_minus_def
        Update_def NeedReplace_def SplitIndex_def SplitEntry_default_def upt_conv_Cons float_eval)
qed

text \<open>
  C3 as stated fails in floating point: the left sum is what the additions of the lane
  leave after rounding, and which additions are made depends on the lane. Five bins
  with the Hessians \<open>2^24\<close>, 1, 1, 1, 1 in \<^verbatim>\<open>float\<close>, two lanes: at bin 3 the lane 1 holds
  the left Hessian sum \<open>2^24 + 2\<close>, where the sum of the entries of the bins 0 to 3 is
  \<open>2^24 + 3\<close>.
\<close>

theorem EnumerateSplit_candidates_counterexample:
  "lane_best float_arith 2 1 [0, 5] ex_cut_val ex_hist_large ex_snode_large 0 0 ex_evaluator 1
     = \<lparr>loss_chg = 8, sindex = 0, split_value = 13, default_left = False,
        left_sum = \<lparr>sum_grad = 0, sum_hess = 16777218\<rparr>, right_sum = \<lparr>sum_grad = 4, sum_hess = 2\<rparr>\<rparr>
   \<and> ex_cut_val ! 3 = 13
   \<and> (\<Sum>j\<leftarrow>[0..<Suc 3]. sum_hess (ex_hist_large ! j)) = 16777219"
  by (simp add: EnumerateSplit_eval ex_cut_val_def ex_hist_large_def ex_snode_large_def ex_evaluator_def)


subsection \<open>The reduction over the sub-group\<close>

lemma reduce_max:
  fixes x :: "'a::linorder"
  shows "reduce_over_group max x ys \<in> set (x # ys) \<and> (\<forall>y\<in>set (x # ys). y \<le> reduce_over_group max x ys)"
proof (induction ys arbitrary: x)
  case Nil
  then show ?case by simp
next
  case (Cons y ys)
  from Cons[of "max x y"] show ?case by (auto simp: max_def split: if_splits)
qed

lemma reduce_min:
  fixes x :: "'a::linorder"
  shows "reduce_over_group min x ys \<in> set (x # ys) \<and> (\<forall>y\<in>set (x # ys). reduce_over_group min x ys \<le> y)"
proof (induction ys arbitrary: x)
  case Nil
  then show ?case by simp
next
  case (Cons y ys)
  from Cons[of "min x y"] show ?case by (auto simp: min_def split: if_splits)
qed

lemma not_NeedReplace:
  "(\<not> NeedReplace r l i) = (l \<le> loss_chg r \<and> (l = loss_chg r \<longrightarrow> SplitIndex r \<le> i))"
  by (auto simp: NeedReplace_def)

lemma Update_same_key:
  assumes "loss_chg e' = loss_chg e" "sindex e' = sindex e"
  shows "Update (Update p e) e' = Update p e"
  using assms by (auto simp: Update_def NeedReplace_def SplitIndex_def)

lemma fold_Update_settled:
  assumes "\<forall>e'\<in>set bs. W e' \<longrightarrow> loss_chg e' = loss_chg e \<and> sindex e' = sindex e"
  shows "fold (\<lambda>e p. if W e then Update p e else p) bs (Update p e) = Update p e"
  using assms by (induction bs) (simp_all add: Update_same_key)

lemma fold_Update_winners:
  assumes "\<forall>e\<in>set bs. W e \<longrightarrow> loss_chg e = M \<and> sindex e = s" and "\<exists>e\<in>set bs. W e"
  shows "\<exists>e\<in>set bs. W e \<and> fold (\<lambda>e p. if W e then Update p e else p) bs p = Update p e"
  using assms
proof (induction bs)
  case Nil
  then show ?case by simp
next
  case (Cons b bs)
  show ?case
  proof (cases "W b")
    case True
    have "\<forall>e'\<in>set bs. W e' \<longrightarrow> loss_chg e' = loss_chg b \<and> sindex e' = sindex b"
      using Cons.prems(1) True by simp
    from fold_Update_settled[OF this] True show ?thesis by auto
  next
    case False
    with Cons.prems have "\<forall>e\<in>set bs. W e \<longrightarrow> loss_chg e = M \<and> sindex e = s" "\<exists>e\<in>set bs. W e" by auto
    from Cons.IH[OF this] False show ?thesis by auto
  qed
qed

lemma group_commit:
  assumes bound: "\<forall>e\<in>set (b # bs). SplitIndex e \<le> 2 ^ 31 - 1"
    and order: "set es = set (b # bs)"
  shows "\<exists>e\<in>set (b # bs).
     (let total_loss_chg = reduce_over_group max (loss_chg b) (map loss_chg bs);
          pick = (\<lambda>e. if loss_chg e = total_loss_chg then SplitIndex e else 2 ^ 31 - 1);
          total_split_index = reduce_over_group min (pick b) (map pick bs)
      in fold (\<lambda>e p. if loss_chg e = total_loss_chg \<and> SplitIndex e = total_split_index
                      then Update p e else p)
           es p) = Update p e
     \<and> (\<forall>e'\<in>set (b # bs). \<not> NeedReplace e (loss_chg e') (SplitIndex e'))"
proof -
  define total where "total = reduce_over_group max (loss_chg b) (map loss_chg bs)"
  define pick where "pick = (\<lambda>e. if loss_chg e = total then SplitIndex e else 2 ^ 31 - 1)"
  define tsi where "tsi = reduce_over_group min (pick b) (map pick bs)"
  define W where "W = (\<lambda>e. loss_chg e = total \<and> SplitIndex e = tsi)"
  from reduce_max[of "loss_chg b" "map loss_chg bs"]
  have t_in: "total \<in> loss_chg ` set (b # bs)" and t_ub: "\<forall>e\<in>set (b # bs). loss_chg e \<le> total"
    by (auto simp: total_def)
  from reduce_min[of "pick b" "map pick bs"]
  have s_in: "tsi \<in> pick ` set (b # bs)" and s_lb: "\<forall>e\<in>set (b # bs). tsi \<le> pick e"
    by (auto simp: tsi_def)
  from t_in obtain et where et: "et \<in> set (b # bs)" "loss_chg et = total" by auto
  from s_in obtain em where em: "em \<in> set (b # bs)" "pick em = tsi" by auto
  have ex: "\<exists>e\<in>set es. W e"
    unfolding order
  proof (cases "loss_chg em = total")
    case True
    with em have "W em" by (simp add: W_def pick_def)
    with em(1) show "\<exists>e\<in>set (b # bs). W e" by blast
  next
    case False
    with em have "tsi = 2 ^ 31 - 1" by (simp add: pick_def)
    moreover have "tsi \<le> SplitIndex et" using s_lb et by (auto simp: pick_def)
    moreover have "SplitIndex et \<le> 2 ^ 31 - 1" using bound et(1) by blast
    ultimately have "W et" using et(2) by (simp add: W_def)
    with et(1) show "\<exists>e\<in>set (b # bs). W e" by blast
  qed
  have key: "\<forall>e\<in>set es. W e \<longrightarrow> loss_chg e = total \<and> sindex e = tsi"
    by (simp add: W_def SplitIndex_def)
  from fold_Update_winners[OF key ex, of p] order obtain e where
    e: "e \<in> set (b # bs)" "W e" "fold (\<lambda>e p. if W e then Update p e else p) es p = Update p e"
    by blast
  have best: "\<not> NeedReplace e (loss_chg e') (SplitIndex e')" if "e' \<in> set (b # bs)" for e'
  proof -
    from t_ub that have le: "loss_chg e' \<le> total" by blast
    have "tsi \<le> SplitIndex e'" if "loss_chg e' = total"
      using s_lb \<open>e' \<in> set (b # bs)\<close> that by (auto simp: pick_def)
    with le e(2) show ?thesis by (auto simp: not_NeedReplace W_def)
  qed
  have "(let total_loss_chg = reduce_over_group max (loss_chg b) (map loss_chg bs);
          pick = (\<lambda>e. if loss_chg e = total_loss_chg then SplitIndex e else 2 ^ 31 - 1);
          total_split_index = reduce_over_group min (pick b) (map pick bs)
      in fold (\<lambda>e p. if loss_chg e = total_loss_chg \<and> SplitIndex e = total_split_index
                      then Update p e else p)
           es p) = fold (\<lambda>e p. if W e then Update p e else p) es p"
    by (simp add: Let_def W_def tsi_def pick_def total_def)
  with best show ?thesis using e(1,3) by metis
qed

lemma EnumerateSplit_structure:
  assumes "0 < sub_group_size" and "fid \<le> 2 ^ 31 - 1" and "is_schedule sub_group_size lane_order"
  shows "\<exists>l. l < sub_group_size \<and>
       EnumerateSplit ar sub_group_size lane_order cut_ptr cut_val hist_data snode p fid nodeID evaluator mcw
          = Update p (lane_best ar sub_group_size l cut_ptr cut_val hist_data snode fid nodeID evaluator mcw)
     \<and> (\<forall>l'. l' < sub_group_size \<longrightarrow>
           \<not> NeedReplace (lane_best ar sub_group_size l cut_ptr cut_val hist_data snode fid nodeID evaluator mcw)
               (loss_chg (lane_best ar sub_group_size l' cut_ptr cut_val hist_data snode fid nodeID evaluator mcw))
               (SplitIndex (lane_best ar sub_group_size l' cut_ptr cut_val hist_data snode fid nodeID evaluator mcw)))"
proof -
  let ?B = "\<lambda>l. lane_best ar sub_group_size l cut_ptr cut_val hist_data snode fid nodeID evaluator mcw"
  have lanes: "map ?B [0..<sub_group_size] = ?B 0 # map ?B [Suc 0..<sub_group_size]"
    using assms(1) by (simp add: upt_conv_Cons)
  have set_lanes: "set (?B 0 # map ?B [Suc 0..<sub_group_size]) = ?B ` {0..<sub_group_size}"
    using lanes by (metis list.set_map set_upt)
  have bound: "\<forall>e\<in>set (?B 0 # map ?B [Suc 0..<sub_group_size]). SplitIndex e \<le> 2 ^ 31 - 1"
  proof
    fix e assume "e \<in> set (?B 0 # map ?B [Suc 0..<sub_group_size])"
    then obtain l where "l < sub_group_size" "e = ?B l" unfolding set_lanes by auto
    with lane_best_props[of ar sub_group_size l cut_ptr cut_val hist_data snode fid nodeID evaluator mcw] assms(2)
    show "SplitIndex e \<le> 2 ^ 31 - 1" by (simp add: SplitIndex_def)
  qed
  have order: "set (map ?B lane_order) = set (?B 0 # map ?B [Suc 0..<sub_group_size])"
    unfolding set_lanes using is_schedule_set[OF assms(3)] by simp
  from group_commit[OF bound order, of p] obtain e where
    e: "e \<in> set (?B 0 # map ?B [Suc 0..<sub_group_size])"
       "EnumerateSplit ar sub_group_size lane_order cut_ptr cut_val hist_data snode p fid nodeID evaluator mcw = Update p e"
       "\<forall>e'\<in>set (?B 0 # map ?B [Suc 0..<sub_group_size]). \<not> NeedReplace e (loss_chg e') (SplitIndex e')"
    unfolding EnumerateSplit_def lanes list.case by blast
  from e(1) obtain l where l: "l < sub_group_size" "e = ?B l" unfolding set_lanes by auto
  from e(3) have "\<forall>l'. l' < sub_group_size \<longrightarrow> \<not> NeedReplace e (loss_chg (?B l')) (SplitIndex (?B l'))"
    unfolding set_lanes by auto
  with l e(2) show ?thesis by blast
qed

lemma EnumerateSplit_result:
  assumes "0 < sub_group_size" and "fid \<le> 2 ^ 31 - 1" and "is_schedule sub_group_size lane_order"
  shows "(EnumerateSplit ar sub_group_size lane_order cut_ptr cut_val hist_data snode p fid nodeID evaluator mcw
            = Update p SplitEntry_default
          \<and> (\<forall>l'. l' < sub_group_size \<longrightarrow>
               (\<forall>y\<in>set (lane_sums ar sub_group_size l' hist_data (cut_ptr ! fid) (int32_end (cut_ptr ! (fid + 1)))).
                  qualifies ar snode mcw (snd y)
                  \<longrightarrow> loss_chg (split_candidate ar cut_val snode fid nodeID evaluator (fst y) (snd y)) \<le> 0)))
     \<or> (\<exists>l. l < sub_group_size \<and>
          (\<exists>x\<in>set (lane_sums ar sub_group_size l hist_data (cut_ptr ! fid) (int32_end (cut_ptr ! (fid + 1)))).
             qualifies ar snode mcw (snd x)
           \<and> 0 < loss_chg (split_candidate ar cut_val snode fid nodeID evaluator (fst x) (snd x))
           \<and> (\<forall>l'. l' < sub_group_size \<longrightarrow>
               (\<forall>y\<in>set (lane_sums ar sub_group_size l' hist_data (cut_ptr ! fid) (int32_end (cut_ptr ! (fid + 1)))).
                  qualifies ar snode mcw (snd y)
                  \<longrightarrow> loss_chg (split_candidate ar cut_val snode fid nodeID evaluator (fst y) (snd y))
                        \<le> loss_chg (split_candidate ar cut_val snode fid nodeID evaluator (fst x) (snd x))))
           \<and> EnumerateSplit ar sub_group_size lane_order cut_ptr cut_val hist_data snode p fid nodeID evaluator mcw
               = Update p (split_candidate ar cut_val snode fid nodeID evaluator (fst x) (snd x))))"
proof -
  let ?B = "\<lambda>l. lane_best ar sub_group_size l cut_ptr cut_val hist_data snode fid nodeID evaluator mcw"
  let ?c = "\<lambda>x. split_candidate ar cut_val snode fid nodeID evaluator (fst x) (snd x)"
  let ?Q = "\<lambda>x. qualifies ar snode mcw (snd x)"
  let ?LS = "\<lambda>l. lane_sums ar sub_group_size l hist_data (cut_ptr ! fid) (int32_end (cut_ptr ! (fid + 1)))"
  from EnumerateSplit_structure[OF assms, of ar cut_ptr cut_val hist_data snode p nodeID evaluator mcw]
  obtain l where l: "l < sub_group_size"
      "EnumerateSplit ar sub_group_size lane_order cut_ptr cut_val hist_data snode p fid nodeID evaluator mcw = Update p (?B l)"
      "\<forall>l'. l' < sub_group_size \<longrightarrow> \<not> NeedReplace (?B l) (loss_chg (?B l')) (SplitIndex (?B l'))"
    by blast
  have ub: "loss_chg (?c y) \<le> loss_chg (?B l)" if "l' < sub_group_size" "y \<in> set (?LS l')" "?Q y" for l' y
  proof -
    from lane_best_props[of ar sub_group_size l' cut_ptr cut_val hist_data snode fid nodeID evaluator mcw] that(2,3)
    have "loss_chg (?c y) \<le> loss_chg (?B l')" by blast
    also have "\<dots> \<le> loss_chg (?B l)" using l(3) that(1) by (simp add: not_NeedReplace)
    finally show ?thesis .
  qed
  from lane_best_props[of ar sub_group_size l cut_ptr cut_val hist_data snode fid nodeID evaluator mcw]
  consider "?B l = SplitEntry_default"
    | x where "x \<in> set (?LS l)" "?Q x" "?B l = ?c x" "0 < loss_chg (?c x)"
    by blast
  then show ?thesis
  proof cases
    case 1
    then have "loss_chg (?B l) = 0" by (simp add: SplitEntry_default_def)
    with ub 1 l(2) show ?thesis by auto
  next
    case 2
    have "\<forall>l'. l' < sub_group_size \<longrightarrow> (\<forall>y\<in>set (?LS l'). ?Q y \<longrightarrow> loss_chg (?c y) \<le> loss_chg (?c x))"
      using ub 2(3) by auto
    with 2 l(1,2) show ?thesis by auto
  qed
qed







subsection \<open>The merge on the host\<close>










subsection \<open>Claims about the test of the minimal child weight and the group size\<close>

text \<open>
  C4. The test of the minimal child weight is inclusive, on the Hessian sums that the
  code holds. \<open>left_sums l\<close> are the bins of lane \<open>l\<close> with the value of \<^verbatim>\<open>sum\<close> at each;
  a bin is accepted when \<^verbatim>\<open>sum.GetHess()\<close> and the Hessian of \<^verbatim>\<open>snode.stats - sum\<close> are both
  at least \<open>mcw\<close>, equality included. The loop of a lane hands the candidate of a bin
  to \<^verbatim>\<open>best.Update\<close> if and only if the bin is accepted. Whatever \<^verbatim>\<open>EnumerateSplit\<close> records
  is the entry it was given, the default entry, or the candidate of an accepted bin, so
  that both its Hessian sums are at least \<open>mcw\<close>; and an accepted bin whose candidate
  has a positive loss change above the one of the entry given and above every other
  accepted candidate's is recorded. This holds for every rounding, every positive
  sub-group size and every order of the lanes.
\<close>

theorem min_child_weight_inclusive:
  assumes "0 < sub_group_size" and "is_schedule sub_group_size lane_order"
    and "fid < 2 ^ 31" and "int32_range cut_ptr fid sub_group_size"
  shows
    "(let left_sums = (\<lambda>l. lane_sums ar sub_group_size l hist_data (cut_ptr ! fid) (cut_ptr ! (fid + 1)));
          right = (\<lambda>left. GradStats_minus ar (stats snode) left);
          accepted = (\<lambda>left. mcw \<le> sum_hess left \<and> mcw \<le> sum_hess (right left));
          candidate = (\<lambda>x. split_candidate ar cut_val snode fid nodeID evaluator (fst x) (snd x));
          result = EnumerateSplit ar sub_group_size lane_order cut_ptr cut_val hist_data snode p_best fid nodeID evaluator mcw
      in (\<forall>l. l < sub_group_size \<longrightarrow>
            lane_best ar sub_group_size l cut_ptr cut_val hist_data snode fid nodeID evaluator mcw
              = fold (\<lambda>x best. if accepted (snd x) then Update best (candidate x) else best)
                  (left_sums l) SplitEntry_default)
       \<and> (result = p_best \<or> result = SplitEntry_default
            \<or> (\<exists>l. l < sub_group_size \<and> (\<exists>x\<in>set (left_sums l). accepted (snd x) \<and> result = candidate x)))
       \<and> (result = p_best \<or> result = SplitEntry_default
            \<or> (mcw \<le> sum_hess (left_sum result) \<and> mcw \<le> sum_hess (right_sum result)))
       \<and> (\<forall>l. l < sub_group_size \<longrightarrow>
            (\<forall>x\<in>set (left_sums l).
               accepted (snd x) \<and> 0 < loss_chg (candidate x) \<and> loss_chg p_best < loss_chg (candidate x)
               \<and> (\<forall>l'. l' < sub_group_size \<longrightarrow>
                    (\<forall>y\<in>set (left_sums l'). accepted (snd y) \<and> y \<noteq> x
                        \<longrightarrow> loss_chg (candidate y) < loss_chg (candidate x)))
               \<longrightarrow> result = candidate x)))"
proof -
  let ?LS = "\<lambda>l. lane_sums ar sub_group_size l hist_data (cut_ptr ! fid) (cut_ptr ! (fid + 1))"
  let ?c = "\<lambda>x. split_candidate ar cut_val snode fid nodeID evaluator (fst x) (snd x)"
  let ?Q = "\<lambda>x. qualifies ar snode mcw (snd x)"
  let ?E = "EnumerateSplit ar sub_group_size lane_order cut_ptr cut_val hist_data snode p_best fid nodeID evaluator mcw"
  from assms(3) have fid: "fid \<le> 2 ^ 31 - 1" by simp
  note iend = int32_range_end[OF assms(4,1)]
  note R = EnumerateSplit_result[OF assms(1) fid assms(2), of ar cut_ptr cut_val hist_data snode p_best nodeID evaluator mcw,
      unfolded iend]
  have L: "lane_best ar sub_group_size l cut_ptr cut_val hist_data snode fid nodeID evaluator mcw
         = fold (\<lambda>x best. if ?Q x then Update best (?c x) else best) (?LS l) SplitEntry_default" for l
  proof -
    have "try_bin ar cut_val snode fid nodeID evaluator mcw = (\<lambda>x best. if ?Q x then Update best (?c x) else best)"
      by (intro ext) (simp add: try_bin_def)
    then show ?thesis unfolding lane_best_fold iend by simp
  qed
  have A: "?E = p_best \<or> ?E = SplitEntry_default
         \<or> (\<exists>l. l < sub_group_size \<and> (\<exists>x\<in>set (?LS l). ?Q x \<and> ?E = ?c x))"
  proof -
    from R consider "?E = Update p_best SplitEntry_default"
      | l x where "l < sub_group_size" "x \<in> set (?LS l)" "?Q x" "?E = Update p_best (?c x)"
      by blast
    then show ?thesis
    proof cases
      case 1
      then show ?thesis by (auto simp: Update_def)
    next
      case 2
      then show ?thesis by (auto simp: Update_def)
    qed
  qed
  have A': "?E = p_best \<or> ?E = SplitEntry_default
         \<or> (mcw \<le> sum_hess (left_sum ?E) \<and> mcw \<le> sum_hess (right_sum ?E))"
  proof -
    from A consider "?E = p_best" | "?E = SplitEntry_default" | x where "?Q x" "?E = ?c x" by blast
    then show ?thesis
    proof cases
      case 3
      then show ?thesis by (simp add: qualifies_def split_candidate_def)
    qed simp_all
  qed
  have B: "?E = ?c x"
    if "l < sub_group_size" "x \<in> set (?LS l)" "?Q x" "0 < loss_chg (?c x)" "loss_chg p_best < loss_chg (?c x)"
       "\<forall>l'. l' < sub_group_size \<longrightarrow> (\<forall>y\<in>set (?LS l'). ?Q y \<and> y \<noteq> x \<longrightarrow> loss_chg (?c y) < loss_chg (?c x))"
    for l x
  proof -
    from R consider "\<forall>l'. l' < sub_group_size \<longrightarrow> (\<forall>y\<in>set (?LS l'). ?Q y \<longrightarrow> loss_chg (?c y) \<le> 0)"
      | m z where "m < sub_group_size" "z \<in> set (?LS m)" "?Q z"
          "\<forall>l'. l' < sub_group_size \<longrightarrow> (\<forall>y\<in>set (?LS l'). ?Q y \<longrightarrow> loss_chg (?c y) \<le> loss_chg (?c z))"
          "?E = Update p_best (?c z)"
      by blast
    then show ?thesis
    proof cases
      case 1
      with that(1-4) show ?thesis by force
    next
      case 2
      have "z = x"
      proof (rule ccontr)
        assume "z \<noteq> x"
        with that(6) 2(1,2,3) have "loss_chg (?c z) < loss_chg (?c x)" by blast
        moreover from 2(4) that(1,2,3) have "loss_chg (?c x) \<le> loss_chg (?c z)" by blast
        ultimately show False by simp
      qed
      with 2(5) that(5) show ?thesis by (simp add: Update_def NeedReplace_def)
    qed
  qed
  from L A A' B show ?thesis unfolding Let_def qualifies_def by blast
qed

theorem min_child_weight_inclusive_witness:
  "lane_sums float_arith 2 1 ex_hist_tenths 0 3
     = [(1, \<lparr>sum_grad = 2, sum_hess = 5033165 / 16777216\<rparr>)]
   \<and> sum_hess (ex_hist_tenths ! 0) + sum_hess (ex_hist_tenths ! 1) < 5033165 / 16777216
   \<and> EnumerateSplit float_arith 2 [1, 0] [0, 3] ex_cut_val ex_hist_tenths ex_snode_tenths SplitEntry_default 0 0
       ex_evaluator (5033165 / 16777216)
     = \<lparr>loss_chg = 16777215 / 1048576, sindex = 0, split_value = 11, default_left = False,
        left_sum = \<lparr>sum_grad = 2, sum_hess = 5033165 / 16777216\<rparr>,
        right_sum = \<lparr>sum_grad = - 2, sum_hess = 3 / 2\<rparr>\<rparr>"
proof -
  let ?x = "(1::nat, \<lparr>sum_grad = 2, sum_hess = 5033165 / 16777216\<rparr>)"
  let ?c = "\<lambda>x. split_candidate float_arith ex_cut_val ex_snode_tenths 0 0 ex_evaluator (fst x) (snd x)"
  let ?acc = "\<lambda>left. 5033165 / 16777216 \<le> sum_hess left
                 \<and> 5033165 / 16777216 \<le> sum_hess (GradStats_minus float_arith (stats ex_snode_tenths) left)"
  let ?LS = "\<lambda>l. lane_sums float_arith 2 l ex_hist_tenths 0 3"
  let ?E = "EnumerateSplit float_arith 2 [1, 0] [0, 3] ex_cut_val ex_hist_tenths ex_snode_tenths SplitEntry_default 0 0
       ex_evaluator (5033165 / 16777216)"
  have h1: "0 < (2::nat)" and h3: "(0::nat) < 2 ^ 31" by simp_all
  have h2: "is_schedule 2 [1, 0]" by (simp add: is_schedule_def upt_conv_Cons)
  have h4: "int32_range [0, 3] 0 2" by (simp add: int32_range_def)
  have ls0: "?LS 0 = [(0, \<lparr>sum_grad = 1, sum_hess = 13421773 / 134217728\<rparr>),
                      (2, \<lparr>sum_grad = 0, sum_hess = 7549747 / 4194304\<rparr>)]"
    by (simp add: lane_sums_eval ex_hist_tenths_def)
  have ls1: "?LS (Suc 0) = [?x]"
    by (simp add: lane_sums_eval ex_hist_tenths_def)
  have cx: "?c ?x = \<lparr>loss_chg = 16777215 / 1048576, sindex = 0, split_value = 11, default_left = False,
        left_sum = \<lparr>sum_grad = 2, sum_hess = 5033165 / 16777216\<rparr>,
        right_sum = \<lparr>sum_grad = - 2, sum_hess = 3 / 2\<rparr>\<rparr>"
    by (simp add: split_candidate_def ex_snode_tenths_def ex_evaluator_def ex_cut_val_def
        GradStats_minus_def float_eval)
  have acc: "?acc (snd ?x)"
    by (simp add: ex_snode_tenths_def GradStats_minus_def float_eval)
  have rej0: "\<not> ?acc \<lparr>sum_grad = 1, sum_hess = 13421773 / 134217728\<rparr>"
    by simp
  have rej2: "\<not> ?acc \<lparr>sum_grad = 0, sum_hess = 7549747 / 4194304\<rparr>"
    by (simp add: ex_snode_tenths_def GradStats_minus_def float_eval)
  have others: "\<forall>l'. l' < 2 \<longrightarrow> (\<forall>y\<in>set (?LS l'). ?acc (snd y) \<and> y \<noteq> ?x
                        \<longrightarrow> loss_chg (?c y) < loss_chg (?c ?x))"
  proof (intro allI impI)
    fix l' :: nat assume "l' < 2"
    then consider "l' = 0" | "l' = Suc 0" by arith
    then show "\<forall>y\<in>set (?LS l'). ?acc (snd y) \<and> y \<noteq> ?x \<longrightarrow> loss_chg (?c y) < loss_chg (?c ?x)"
    proof cases
      case 1
      with rej0 rej2 show ?thesis by (simp add: ls0)
    next
      case 2
      then show ?thesis by (simp add: ls1)
    qed
  qed
  have pos: "0 < loss_chg (?c ?x)" and better: "loss_chg SplitEntry_default < loss_chg (?c ?x)"
    using cx by (simp_all add: SplitEntry_default_def)
  have mem: "?x \<in> set (?LS 1)" using ls1 by simp
  from min_child_weight_inclusive[OF h1 h2 h3 h4, of float_arith ex_hist_tenths ex_snode_tenths "5033165 / 16777216"
      ex_cut_val 0 ex_evaluator SplitEntry_default]
  have "\<forall>l. l < 2 \<longrightarrow>
            (\<forall>x\<in>set (?LS l).
               ?acc (snd x) \<and> 0 < loss_chg (?c x) \<and> loss_chg SplitEntry_default < loss_chg (?c x)
               \<and> (\<forall>l'. l' < 2 \<longrightarrow>
                    (\<forall>y\<in>set (?LS l'). ?acc (snd y) \<and> y \<noteq> x
                        \<longrightarrow> loss_chg (?c y) < loss_chg (?c x)))
               \<longrightarrow> ?E = ?c x)"
    by (simp add: Let_def)
  with mem acc pos better others have "?E = ?c ?x" by (metis one_less_numeral_iff semiring_norm(76))
  with ls1 cx show ?thesis by (simp add: ex_hist_tenths_def)
qed

text \<open>
  C2. \<^verbatim>\<open>EnumerateSplit\<close> at an input on which lanes tie. Six bins, minimal child weight 1,
  node statistics \<open>(0, 10)\<close>, every sum a small integer, so that no addition rounds; the
  bins 1, 2 and 3 have the loss change 10. With three lanes, lane 0 ends with bin 3,
  lane 1 with bin 1 and lane 2 with bin 2. The reduction takes the maximal loss change
  and the minimal split index among the lanes that hold it; the split index is the
  feature id, which all lanes share, so all three lanes call \<^verbatim>\<open>p_best->Update\<close>. When their
  calls take effect in ascending order of the lanes the split at bin 3 (threshold 13) is
  recorded, in descending order the split at bin 2 (threshold 12); with sub-group size 1
  the split at bin 1 (threshold 11).
\<close>

theorem EnumerateSplit_tied_lanes:
  "EnumerateSplit float_arith 3 [0, 1, 2] [0, 6] ex_cut_val ex_hist_ties (ex_snode 10) SplitEntry_default 0 0
       ex_evaluator 1
     = \<lparr>loss_chg = 10, sindex = 0, split_value = 13, default_left = False,
        left_sum = \<lparr>sum_grad = 4, sum_hess = 8\<rparr>, right_sum = \<lparr>sum_grad = - 4, sum_hess = 2\<rparr>\<rparr>
   \<and> EnumerateSplit float_arith 3 [2, 1, 0] [0, 6] ex_cut_val ex_hist_ties (ex_snode 10) SplitEntry_default 0 0
       ex_evaluator 1
     = \<lparr>loss_chg = 10, sindex = 0, split_value = 12, default_left = False,
        left_sum = \<lparr>sum_grad = 5, sum_hess = 5\<rparr>, right_sum = \<lparr>sum_grad = - 5, sum_hess = 5\<rparr>\<rparr>
   \<and> EnumerateSplit float_arith 1 [0] [0, 6] ex_cut_val ex_hist_ties (ex_snode 10) SplitEntry_default 0 0
       ex_evaluator 1
     = \<lparr>loss_chg = 10, sindex = 0, split_value = 11, default_left = False,
        left_sum = \<lparr>sum_grad = 4, sum_hess = 2\<rparr>, right_sum = \<lparr>sum_grad = - 4, sum_hess = 8\<rparr>\<rparr>"
  by (simp add: EnumerateSplit_eval ex_cut_val_def ex_hist_ties_def ex_snode_def ex_evaluator_def)


subsection \<open>Claims about the merge of EvaluateSplits\<close>






end
